theory Spec2Isabelle
  imports Complex_Main "HOL-Library.Multiset" "HOL-Library.Char_ord" "HOL-Library.List_Lexorder"
begin

section \<open>Media Studio: video processor, gallery storage, recorder MIME selection\<close>

text \<open>
  The geometry is computed in JavaScript numbers, which are IEEE-754 binary64 values:
  every division, multiplication and subtraction rounds its exact result to the nearest
  representable number, ties to even, and division by zero gives an infinity or
  \<open>NaN\<close>. The model keeps a finite number as the real it denotes and rounds after every
  operation. Pixel dimensions of DOM objects (\<open>canvas.width\<close>, \<open>video.videoWidth\<close>)
  are naturals. The frame rate is only compared and selected, never computed with, and is
  kept as a real.
\<close>

subsection \<open>JavaScript numbers\<close>

text \<open>
  A number is \<open>NaN\<close>, an infinity, the negative zero, or a finite real; \<open>Finite 0\<close> is
  the positive zero.
\<close>

datatype js_number = NaN | PosInf | NegInf | NegZero | Finite real

text \<open>\<open>ilog2 n\<close> is the position of the highest bit of a positive integer.\<close>

function ilog2 :: "int \<Rightarrow> nat" where
  "ilog2 n = (if n < 2 then 0 else Suc (ilog2 (n div 2)))"
  by pat_completeness auto
termination
  by (relation "measure nat") auto

declare ilog2.simps [simp del]

definition pow2 :: "int \<Rightarrow> real" where
  "pow2 e = (if 0 \<le> e then 2 ^ nat e else 1 / 2 ^ nat (- e))"

text \<open>The binade of a positive real \<open>x\<close>: the \<open>e\<close> with \<open>2^e \<le> x < 2^(e+1)\<close>.\<close>

definition binade :: "real \<Rightarrow> int" where
  "binade x =
     (if 1 \<le> x then int (ilog2 \<lfloor>x\<rfloor>)
      else - int (Suc (ilog2 (\<lceil>1 / x\<rceil> - 1))))"

text \<open>Rounding to the nearest integer, a tie to the even one.\<close>

definition rne :: "real \<Rightarrow> int" where
  "rne y =
     (let f = \<lfloor>y\<rfloor>; r = y - of_int f
      in if r < 1 / 2 then f else if 1 / 2 < r then f + 1 else if even f then f else f + 1)"

text \<open>
  The spacing of the binary64 numbers around \<open>x\<close>: 52 bits below the binade, and no finer
  than \<open>2^-1074\<close> (the subnormal range). \<open>round_binary64\<close> rounds to a multiple of it.
\<close>

definition quantum :: "real \<Rightarrow> real" where
  "quantum x = pow2 (max (binade \<bar>x\<bar>) (- 1022) - 52)"

definition round_binary64 :: "real \<Rightarrow> real" where
  "round_binary64 x = (if x = 0 then 0 else of_int (rne (x / quantum x)) * quantum x)"

fun the_real :: "js_number \<Rightarrow> real" where
  "the_real (Finite x) = x"
| "the_real n = 0"

fun finite_number :: "js_number \<Rightarrow> bool" where
  "finite_number (Finite x) = True"
| "finite_number NegZero = True"
| "finite_number n = False"

fun is_negative :: "js_number \<Rightarrow> bool" where
  "is_negative (Finite x) = (x < 0)"
| "is_negative NegZero = True"
| "is_negative NegInf = True"
| "is_negative n = False"

fun is_zero :: "js_number \<Rightarrow> bool" where
  "is_zero (Finite x) = (x = 0)"
| "is_zero NegZero = True"
| "is_zero n = False"

fun is_inf :: "js_number \<Rightarrow> bool" where
  "is_inf PosInf = True"
| "is_inf NegInf = True"
| "is_inf n = False"

definition signed_infinity :: "bool \<Rightarrow> js_number" where
  "signed_infinity neg = (if neg then NegInf else PosInf)"

definition signed_zero :: "bool \<Rightarrow> js_number" where
  "signed_zero neg = (if neg then NegZero else Finite 0)"

text \<open>
  The number for the exact result \<open>x\<close> of an operation: rounded, an infinity when the
  rounded value reaches \<open>2^1024\<close>, a zero of the operation's sign when it rounds to zero.
\<close>

definition to_number :: "bool \<Rightarrow> real \<Rightarrow> js_number" where
  "to_number neg x =
     (let r = round_binary64 x
      in if pow2 1024 \<le> \<bar>r\<bar> then signed_infinity neg
         else if r = 0 then signed_zero neg
         else Finite r)"

text \<open>The operators \<open>*\<close>, \<open>/\<close>, unary and binary \<open>-\<close>, and \<open>>\<close>.\<close>

definition js_mul :: "js_number \<Rightarrow> js_number \<Rightarrow> js_number" where
  "js_mul a b =
     (if a = NaN \<or> b = NaN then NaN
      else if (is_inf a \<and> is_zero b) \<or> (is_zero a \<and> is_inf b) then NaN
      else if is_inf a \<or> is_inf b then signed_infinity (is_negative a \<noteq> is_negative b)
      else to_number (is_negative a \<noteq> is_negative b) (the_real a * the_real b))"

definition js_div :: "js_number \<Rightarrow> js_number \<Rightarrow> js_number" where
  "js_div a b =
     (if a = NaN \<or> b = NaN then NaN
      else if (is_inf a \<and> is_inf b) \<or> (is_zero a \<and> is_zero b) then NaN
      else if is_inf a \<or> is_zero b then signed_infinity (is_negative a \<noteq> is_negative b)
      else if is_inf b then signed_zero (is_negative a \<noteq> is_negative b)
      else to_number (is_negative a \<noteq> is_negative b) (the_real a / the_real b))"

fun js_neg :: "js_number \<Rightarrow> js_number" where
  "js_neg NaN = NaN"
| "js_neg PosInf = NegInf"
| "js_neg NegInf = PosInf"
| "js_neg NegZero = Finite 0"
| "js_neg (Finite x) = (if x = 0 then NegZero else Finite (- x))"

definition js_add :: "js_number \<Rightarrow> js_number \<Rightarrow> js_number" where
  "js_add a b =
     (if a = NaN \<or> b = NaN then NaN
      else if is_inf a \<and> is_inf b then (if a = b then a else NaN)
      else if is_inf a then a
      else if is_inf b then b
      else if is_zero a \<and> is_zero b then signed_zero (is_negative a \<and> is_negative b)
      else
        let s = the_real a + the_real b
        in if s = 0 then Finite 0 else to_number (s < 0) s)"

definition js_sub :: "js_number \<Rightarrow> js_number \<Rightarrow> js_number" where
  "js_sub a b = js_add a (js_neg b)"

definition js_gt :: "js_number \<Rightarrow> js_number \<Rightarrow> bool" where
  "js_gt a b =
     (if a = NaN \<or> b = NaN then False
      else if a = PosInf then b \<noteq> PosInf
      else if b = NegInf then a \<noteq> NegInf
      else if a = NegInf \<or> b = PosInf then False
      else the_real b < the_real a)"

text \<open>An \<open>unsigned long\<close> of the DOM as a number: it is below \<open>2^32\<close>, hence exact.\<close>

definition number_of_nat :: "nat \<Rightarrow> js_number" where
  "number_of_nat n = Finite (real n)"

subsection \<open>Crop and letterbox geometry (\<open>VideoProcessor.calculateCropResize\<close>)\<close>

record crop_resize =
  srcX :: js_number
  srcY :: js_number
  srcW :: js_number
  srcH :: js_number
  destX :: js_number
  destY :: js_number
  destW :: js_number
  destH :: js_number

text \<open>
  The source and destination rectangles handed to \<open>drawImage\<close> (lines 144-185). The
  \<open>switch\<close> has no default case: \<open>'fill'\<close> and every other string keep the full source
  and the full destination.
\<close>

definition calculateCropResize ::
  "js_number \<Rightarrow> js_number \<Rightarrow> js_number \<Rightarrow> js_number \<Rightarrow> string \<Rightarrow> crop_resize" where
  "calculateCropResize inputW inputH outputW outputH fitMode =
    (let inputAspect = js_div inputW inputH;
         outputAspect = js_div outputW outputH;
         r = \<lparr>srcX = Finite 0, srcY = Finite 0, srcW = inputW, srcH = inputH,
              destX = Finite 0, destY = Finite 0, destW = outputW, destH = outputH\<rparr>
     in
       if fitMode = ''contain'' then
         (if js_gt inputAspect outputAspect then
            (let dH = js_div outputW inputAspect
             in r\<lparr>destH := dH, destY := js_div (js_sub outputH dH) (Finite 2)\<rparr>)
          else
            (let dW = js_mul outputH inputAspect
             in r\<lparr>destW := dW, destX := js_div (js_sub outputW dW) (Finite 2)\<rparr>))
       else if fitMode = ''cover'' then
         (if js_gt inputAspect outputAspect then
            (let sW = js_mul inputH outputAspect
             in r\<lparr>srcW := sW, srcX := js_div (js_sub inputW sW) (Finite 2)\<rparr>)
          else
            (let sH = js_div inputW outputAspect
             in r\<lparr>srcH := sH, srcY := js_div (js_sub inputH sH) (Finite 2)\<rparr>))
       else r)"

subsection \<open>Tracks, streams and the browser state\<close>

text \<open>
  Tracks are shared objects: a stream holds references to them, and stopping a track is
  seen through every stream that holds it. The store of tracks is a list, a reference is
  an index into it, and a fresh track is appended. \<open>clone_method\<close> says what the
  property \<open>track.clone\<close> is: absent (falsy), a function that returns a copy, or a
  function that throws. \<open>frameRequestRate\<close> is the argument of \<open>captureStream\<close> that
  created a canvas track.
\<close>

datatype track_kind = VideoKind | AudioKind

datatype clone_method = CloneAbsent | CloneReturns | CloneThrows

record media_track =
  kind :: track_kind
  ended :: bool
  clone_method :: clone_method
  cloned_from :: "nat option"
  frameRequestRate :: "real option"

type_synonym track_ref = nat

type_synonym media_stream = "track_ref list"

datatype js_error = Error string | DOMException string

record browser =
  tracks :: "media_track list"
  raf_pending :: "(nat \<times> string) list"
  raf_next :: nat
  console :: "string list"

definition getVideoTracks :: "browser \<Rightarrow> media_stream \<Rightarrow> media_stream" where
  "getVideoTracks b stream =
     filter (\<lambda>r. r < length (tracks b) \<and> kind (tracks b ! r) = VideoKind) stream"

definition getAudioTracks :: "browser \<Rightarrow> media_stream \<Rightarrow> media_stream" where
  "getAudioTracks b stream =
     filter (\<lambda>r. r < length (tracks b) \<and> kind (tracks b ! r) = AudioKind) stream"

definition warn :: "string \<Rightarrow> browser \<Rightarrow> browser" where
  "warn msg b = b\<lparr>console := console b @ [msg]\<rparr>"

text \<open>\<open>MediaStream.addTrack\<close> does nothing when the stream already holds the track.\<close>

definition addTrack :: "track_ref \<Rightarrow> media_stream \<Rightarrow> media_stream" where
  "addTrack r stream = (if r \<in> set stream then stream else stream @ [r])"

definition cloneTrack :: "track_ref \<Rightarrow> browser \<Rightarrow> track_ref \<times> browser" where
  "cloneTrack t b =
     (length (tracks b), b\<lparr>tracks := tracks b @ [(tracks b ! t)\<lparr>cloned_from := Some t\<rparr>]\<rparr>)"

definition stopTrack :: "track_ref \<Rightarrow> browser \<Rightarrow> browser" where
  "stopTrack r b = b\<lparr>tracks := (tracks b)[r := (tracks b ! r)\<lparr>ended := True\<rparr>]\<rparr>"

definition requestAnimationFrame :: "string \<Rightarrow> browser \<Rightarrow> nat \<times> browser" where
  "requestAnimationFrame fitMode b =
     (raf_next b,
      b\<lparr>raf_pending := raf_pending b @ [(raf_next b, fitMode)], raf_next := Suc (raf_next b)\<rparr>)"

definition cancelAnimationFrame :: "nat \<Rightarrow> browser \<Rightarrow> browser" where
  "cancelAnimationFrame h b = b\<lparr>raf_pending := filter (\<lambda>e. fst e \<noteq> h) (raf_pending b)\<rparr>"

subsection \<open>The processor object (\<open>class VideoProcessor\<close>)\<close>

text \<open>
  The calls made on the 2D context: \<open>clearRect\<close> and \<open>fillRect\<close> with the canvas size,
  \<open>drawImage\<close> with the computed rectangles.
\<close>

datatype canvas_op =
    ClearRect nat nat nat nat
  | FillRect string nat nat nat nat
  | DrawImage crop_resize

text \<open>The canvas together with its 2D context: its size, the fill style and the calls drawn.\<close>

record canvas_state =
  width :: nat
  height :: nat
  fillStyle :: string
  ops :: "canvas_op list"

record video_element =
  srcObject :: "media_stream option"
  muted :: bool
  playsInline :: bool
  attributes :: "(string \<times> string) list"
  videoWidth :: nat
  videoHeight :: nat

record processor =
  canvas :: canvas_state
  outputStream :: "media_stream option"
  inputVideo :: "video_element option"
  animationId :: "nat option"
  isProcessing :: bool

text \<open>The constructor: a fresh canvas has the default size 300 x 150.\<close>

definition new_VideoProcessor :: processor where
  "new_VideoProcessor =
     \<lparr>canvas = \<lparr>width = 300, height = 150, fillStyle = ''#000000'', ops = []\<rparr>,
      outputStream = None, inputVideo = None, animationId = None, isProcessing = False\<rparr>"

record processing_options =
  opt_width :: "nat option"
  opt_height :: "nat option"
  opt_fitMode :: "string option"
  opt_fps :: "real option"

text \<open>
  What the browser does during one call of \<open>startProcessing\<close>: whether the metadata is
  there, arrives, or the 5 s timer fires first; whether \<open>play()\<close> and its retry reject;
  the size of the video at the k-th poll for the first frame; whether \<open>captureStream\<close>
  throws (and its message); and whether \<open>addTrack\<close> throws in the iteration for a given
  input audio track.
\<close>

datatype metadata_outcome = ReadyAlready | LoadedMetadata | MetadataTimeout

record sp_env =
  metadata :: metadata_outcome
  play_first :: "js_error option"
  play_retry :: "js_error option"
  frame_dims :: "nat \<Rightarrow> nat \<times> nat"
  captureStream_error :: "string option"
  addTrack_throws :: "track_ref \<Rightarrow> bool"

text \<open>\<open>processFrame\<close> (lines 116-139): one pass of the drawing loop.\<close>

definition processFrame :: "string \<Rightarrow> processor \<times> browser \<Rightarrow> processor \<times> browser" where
  "processFrame fitMode s =
     (let (p, b) = s in
      if \<not> isProcessing p then s
      else
        (case inputVideo p of
           None \<Rightarrow> s
         | Some video \<Rightarrow>
             let c = canvas p;
                 c' = (if videoWidth video \<noteq> 0 \<and> videoHeight video \<noteq> 0 then
                         c\<lparr>fillStyle := ''#000000'',
                           ops := ops c @
                             [ClearRect 0 0 (width c) (height c),
                              FillRect ''#000000'' 0 0 (width c) (height c),
                              DrawImage (calculateCropResize
                                           (number_of_nat (videoWidth video))
                                           (number_of_nat (videoHeight video))
                                           (number_of_nat (width c))
                                           (number_of_nat (height c)) fitMode)]\<rparr>
                       else c);
                 (handle, b') = requestAnimationFrame fitMode b
             in (p\<lparr>canvas := c', animationId := Some handle\<rparr>, b')))"

text \<open>
  \<open>stop\<close> (lines 187-201). A handle 0 is falsy and is not cancelled. The video element
  has its \<open>srcObject\<close> cleared and is then dropped; nothing else refers to it.
\<close>

definition stop :: "processor \<times> browser \<Rightarrow> processor \<times> browser" where
  "stop s =
     (let (p, b) = s;
          p1 = p\<lparr>isProcessing := False\<rparr>;
          (p2, b2) = (case animationId p1 of
                        None \<Rightarrow> (p1, b)
                      | Some h \<Rightarrow>
                          if h \<noteq> 0 then (p1\<lparr>animationId := None\<rparr>, cancelAnimationFrame h b)
                          else (p1, b));
          p3 = (case inputVideo p2 of
                  None \<Rightarrow> p2
                | Some video \<Rightarrow> p2\<lparr>inputVideo := None\<rparr>)
      in case outputStream p3 of
           None \<Rightarrow> (p3, b2)
         | Some out \<Rightarrow> (p3\<lparr>outputStream := None\<rparr>, fold stopTrack out b2))"

text \<open>
  The polling loop for the first frame (lines 76-85) may run forever: not returning is
  the value \<open>None\<close>.
\<close>

partial_function (option) checkFrame :: "(nat \<Rightarrow> nat \<times> nat) \<Rightarrow> nat \<Rightarrow> nat option" where
  "checkFrame dims k =
     (if fst (dims k) \<noteq> 0 \<and> snd (dims k) \<noteq> 0 then Some k else checkFrame dims (Suc k))"

text \<open>Line 89: \<open>Math.min(Math.max(1, fps || 30), 60)\<close>; 0 is falsy.\<close>

definition safeFps :: "real \<Rightarrow> real" where
  "safeFps fps = min (max 1 (if fps = 0 then 30 else fps)) 60"

text \<open>
  The \<open>forEach\<close> over the input's audio tracks (lines 96-106). The body is inside a
  \<open>try\<close>: when \<open>clone()\<close> or \<open>addTrack\<close> throws, the \<open>catch\<close> logs a warning and
  the loop goes on with the next track.
\<close>

definition addAudioTrack :: "(track_ref \<Rightarrow> bool) \<Rightarrow> track_ref \<Rightarrow> media_stream \<times> browser \<Rightarrow>
    media_stream \<times> browser" where
  "addAudioTrack throws t s =
     (let (out, b) = s;
          failed = ''Failed to add audio track to processed stream:'' in
      case clone_method (tracks b ! t) of
        CloneThrows \<Rightarrow> (out, warn failed b)
      | CloneAbsent \<Rightarrow> if throws t then (out, warn failed b) else (addTrack t out, b)
      | CloneReturns \<Rightarrow>
          let (cloned, b') = cloneTrack t b in
          if throws t then (out, warn failed b') else (addTrack cloned out, b'))"

fun addAudioTracks :: "(track_ref \<Rightarrow> bool) \<Rightarrow> track_ref list \<Rightarrow> media_stream \<times> browser \<Rightarrow>
    media_stream \<times> browser" where
  "addAudioTracks throws [] s = s"
| "addAudioTracks throws (t # ts) s = addAudioTracks throws ts (addAudioTrack throws t s)"

text \<open>
  \<open>canvas.captureStream(frameRate)\<close> returns a new stream with one new video track,
  which keeps the frame rate it was requested with.
\<close>

definition canvasTrack :: "real \<Rightarrow> media_track" where
  "canvasTrack frameRate =
     \<lparr>kind = VideoKind, ended = False, clone_method = CloneReturns,
      cloned_from = None, frameRequestRate = Some frameRate\<rparr>"

definition captureStream :: "real \<Rightarrow> browser \<Rightarrow> media_stream \<times> browser" where
  "captureStream frameRate b =
     ([length (tracks b)], b\<lparr>tracks := tracks b @ [canvasTrack frameRate]\<rparr>)"

text \<open>
  Lines 87-113 of \<open>startProcessing\<close>: capture the canvas, forward the audio, start the
  loop and return the output stream.
\<close>

definition composeOutput :: "sp_env \<Rightarrow> media_stream \<Rightarrow> string \<Rightarrow> real \<Rightarrow> processor \<times> browser \<Rightarrow>
    (js_error + media_stream) \<times> processor \<times> browser" where
  "composeOutput env inputStream fitMode fps s =
     (let (p, b) = s in
      case captureStream_error env of
        Some msg \<Rightarrow> (Inl (Error (''Failed to capture canvas stream: '' @ msg)), p, b)
      | None \<Rightarrow>
          let (captured, b1) = captureStream (safeFps fps) b;
              (out, b2) = addAudioTracks (addTrack_throws env) (getAudioTracks b1 inputStream)
                            (captured, b1);
              p1 = p\<lparr>outputStream := Some out, isProcessing := True\<rparr>;
              (p2, b3) = processFrame fitMode (p1, b2)
          in (Inr out, p2, b3))"

text \<open>
  \<open>startProcessing\<close> (lines 26-114). The result is \<open>None\<close> when the call never settles,
  \<open>Some (Inl e, _)\<close> when it rejects with \<open>e\<close>, and \<open>Some (Inr stream, _)\<close> when it
  resolves; the state is the one the call leaves behind.
\<close>

definition startProcessing :: "sp_env \<Rightarrow> media_stream \<Rightarrow> processing_options \<Rightarrow>
    processor \<times> browser \<Rightarrow> ((js_error + media_stream) \<times> processor \<times> browser) option" where
  "startProcessing env inputStream options s =
     (let (p, b) = s;
          w = (case opt_width options of None \<Rightarrow> 1920 | Some v \<Rightarrow> v);
          h = (case opt_height options of None \<Rightarrow> 1080 | Some v \<Rightarrow> v);
          fitMode = (case opt_fitMode options of None \<Rightarrow> ''cover'' | Some v \<Rightarrow> v);
          fps = (case opt_fps options of None \<Rightarrow> 30 | Some v \<Rightarrow> v)
      in
      if getVideoTracks b inputStream = [] then
        Some (Inl (Error ''No video tracks in input stream''), p, b)
      else
        let video = \<lparr>srcObject = Some inputStream, muted = True, playsInline = True,
                      attributes = [(''muted'', ''''), (''playsinline'', '''')],
                      videoWidth = 0, videoHeight = 0\<rparr>;
            p1 = p\<lparr>canvas := (canvas p)\<lparr>width := w, height := h\<rparr>, inputVideo := Some video\<rparr>
        in
        if metadata env = MetadataTimeout then
          Some (Inl (Error ''Video metadata timeout''), p1, b)
        else
          (case (play_first env, play_retry env) of
             (Some e1, Some e2) \<Rightarrow>
               Some (Inl e2, p1, warn ''VideoProcessor: play() failed'' b)
           | _ \<Rightarrow>
               (case checkFrame (frame_dims env) 0 of
                  None \<Rightarrow> None
                | Some k \<Rightarrow>
                    let p2 = p1\<lparr>inputVideo :=
                               Some (video\<lparr>videoWidth := fst (frame_dims env k),
                                            videoHeight := snd (frame_dims env k)\<rparr>)\<rparr>
                    in Some (composeOutput env inputStream fitMode fps (p2, b)))))"

subsection \<open>Gallery persistence (\<open>storage.js\<close>)\<close>

text \<open>
  A stored record. The spread of \<open>metadata\<close> comes last in the object literal; its keys
  are taken to differ from the five fixed ones, as at every call site.
\<close>

record gallery_item =
  item_id :: string
  blob :: string
  item_type :: string
  item_size :: nat
  timestamp :: int
  item_metadata :: "(string \<times> string) list"

text \<open>
  The database \<open>MediaStudioDB\<close>: \<open>None\<close> before it exists, otherwise the records of
  its object store \<open>gallery\<close> in the order of their keys. The log is the console.
\<close>

record idb =
  db :: "gallery_item list option"
  idb_console :: "string list"

text \<open>
  What IndexedDB does during one call: the error with which \<open>indexedDB.open\<close> fails,
  the exception thrown while the transaction, store or index is obtained, and the error
  with which the request itself fails.
\<close>

record idb_env =
  open_error :: "js_error option"
  transaction_error :: "js_error option"
  request_error :: "js_error option"

definition stored :: "idb \<Rightarrow> gallery_item list" where
  "stored st = (case db st of None \<Rightarrow> [] | Some items \<Rightarrow> items)"

definition log_error :: "string \<Rightarrow> idb \<Rightarrow> idb" where
  "log_error msg st = st\<lparr>idb_console := idb_console st @ [msg]\<rparr>"

text \<open>\<open>initDB\<close>: opening creates the database and its store when they do not exist.\<close>

definition initDB :: "idb_env \<Rightarrow> idb \<Rightarrow> (js_error + unit) \<times> idb" where
  "initDB env st =
     (case open_error env of
        Some e \<Rightarrow> (Inl e, st)
      | None \<Rightarrow> (Inr (), st\<lparr>db := Some (stored st)\<rparr>))"

text \<open>
  \<open>saveGalleryItem\<close>: \<open>new_id\<close> stands for the template string built from
  \<open>Date.now()\<close> and \<open>Math.random()\<close>, \<open>now\<close> for the second \<open>Date.now()\<close>. The
  request is awaited inside the \<open>try\<close>, so every failure reaches the \<open>catch\<close>, which
  logs and throws again. \<open>store.add\<close> fails on a key that is already there.
\<close>

definition saveGalleryItem :: "idb_env \<Rightarrow> string \<Rightarrow> int \<Rightarrow> string \<Rightarrow> string \<Rightarrow>
    (string \<times> string) list \<Rightarrow> idb \<Rightarrow> (js_error + string) \<times> idb" where
  "saveGalleryItem env new_id now blob_data type_str meta st =
     (let failed = log_error ''Failed to save gallery item:'' in
      case initDB env st of
        (Inl e, st1) \<Rightarrow> (Inl e, failed st1)
      | (Inr u, st1) \<Rightarrow>
          (case transaction_error env of
             Some e \<Rightarrow> (Inl e, failed st1)
           | None \<Rightarrow>
               let item = \<lparr>item_id = new_id, blob = blob_data, item_type = type_str,
                           item_size = length blob_data, timestamp = now, item_metadata = meta\<rparr>
               in
               (case request_error env of
                  Some e \<Rightarrow> (Inl e, failed st1)
                | None \<Rightarrow>
                    if new_id \<in> item_id ` set (stored st1) then
                      (Inl (DOMException ''ConstraintError''), failed st1)
                    else
                      (Inr new_id, st1\<lparr>db := Some (insort_key item_id item (stored st1))\<rparr>))))"

text \<open>
  \<open>Array.prototype.sort\<close> with a comparator is stable; with a consistent comparator
  its result is the one of a stable insertion sort.
\<close>

fun js_insert :: "('a \<Rightarrow> 'a \<Rightarrow> int) \<Rightarrow> 'a \<Rightarrow> 'a list \<Rightarrow> 'a list" where
  "js_insert cmp x [] = [x]"
| "js_insert cmp x (y # ys) = (if cmp x y \<le> 0 then x # y # ys else y # js_insert cmp x ys)"

definition js_sort :: "('a \<Rightarrow> 'a \<Rightarrow> int) \<Rightarrow> 'a list \<Rightarrow> 'a list" where
  "js_sort cmp xs = foldr (js_insert cmp) xs []"

text \<open>The index \<open>timestamp\<close> lists the records by timestamp, equal ones by key.\<close>

definition index_getAll :: "gallery_item list \<Rightarrow> gallery_item list" where
  "index_getAll items = sort_key timestamp items"

text \<open>
  \<open>loadGalleryItems\<close>: the promise of the request is returned from inside the \<open>try\<close>
  without \<open>await\<close>, so a request that fails rejects the result and the \<open>catch\<close> never
  runs; the \<open>catch\<close> sees the failures of \<open>initDB\<close> and of the synchronous calls.
\<close>

definition loadGalleryItems :: "idb_env \<Rightarrow> idb \<Rightarrow> (js_error + gallery_item list) \<times> idb" where
  "loadGalleryItems env st =
     (let failed = log_error ''Failed to load gallery items:'' in
      case initDB env st of
        (Inl e, st1) \<Rightarrow> (Inr [], failed st1)
      | (Inr u, st1) \<Rightarrow>
          (case transaction_error env of
             Some e \<Rightarrow> (Inr [], failed st1)
           | None \<Rightarrow>
               (case request_error env of
                  Some e \<Rightarrow> (Inl e, st1)
                | None \<Rightarrow>
                    (Inr (js_sort (\<lambda>a b. timestamp b - timestamp a) (index_getAll (stored st1))),
                     st1))))"

text \<open>\<open>deleteGalleryItem\<close>: \<open>store.delete(id)\<close> removes the record with that key.\<close>

definition deleteGalleryItem :: "idb_env \<Rightarrow> string \<Rightarrow> idb \<Rightarrow> (js_error + unit) \<times> idb" where
  "deleteGalleryItem env key st =
     (let failed = log_error ''Failed to delete gallery item:'' in
      case initDB env st of
        (Inl e, st1) \<Rightarrow> (Inl e, failed st1)
      | (Inr u, st1) \<Rightarrow>
          (case transaction_error env of
             Some e \<Rightarrow> (Inl e, failed st1)
           | None \<Rightarrow>
               (case request_error env of
                  Some e \<Rightarrow> (Inl e, st1)
                | None \<Rightarrow>
                    (Inr (), st1\<lparr>db := Some (filter (\<lambda>r. item_id r \<noteq> key) (stored st1))\<rparr>))))"

definition clearGallery :: "idb_env \<Rightarrow> idb \<Rightarrow> (js_error + unit) \<times> idb" where
  "clearGallery env st =
     (let failed = log_error ''Failed to clear gallery:'' in
      case initDB env st of
        (Inl e, st1) \<Rightarrow> (Inl e, failed st1)
      | (Inr u, st1) \<Rightarrow>
          (case transaction_error env of
             Some e \<Rightarrow> (Inl e, failed st1)
           | None \<Rightarrow>
               (case request_error env of
                  Some e \<Rightarrow> (Inl e, st1)
                | None \<Rightarrow> (Inr (), st1\<lparr>db := Some []\<rparr>))))"

text \<open>The record stored under a key, if any.\<close>

definition lookup_item :: "idb \<Rightarrow> string \<Rightarrow> gallery_item option" where
  "lookup_item st key = find (\<lambda>r. item_id r = key) (stored st)"

subsection \<open>Recorder MIME type (\<open>pickMimeType\<close>)\<close>

definition startsWith :: "string \<Rightarrow> string \<Rightarrow> bool" where
  "startsWith s p = (take (length p) s = p)"

text \<open>The \<open>for\<close> loop: the first candidate the recorder supports, or the empty string.\<close>

fun firstSupported :: "(string \<Rightarrow> bool) \<Rightarrow> string list \<Rightarrow> string" where
  "firstSupported isTypeSupported [] = ''''"
| "firstSupported isTypeSupported (t # ts) =
     (if isTypeSupported t then t else firstSupported isTypeSupported ts)"

definition pickMimeType :: "(string \<Rightarrow> bool) \<Rightarrow> browser \<Rightarrow> media_stream \<Rightarrow> string" where
  "pickMimeType isTypeSupported b stream =
     (let hasVideo = (length (getVideoTracks b stream) \<noteq> 0);
          hasAudio = (length (getAudioTracks b stream) \<noteq> 0);
          videoCandidates =
            (if hasAudio then
               [''video/webm;codecs=vp8,opus'',
                ''video/webm;codecs=vp9,opus'',
                ''video/webm;codecs=vp8'',
                ''video/webm;codecs=vp9'',
                ''video/webm'',
                ''video/mp4;codecs=avc1.42E01E,mp4a.40.2'',
                ''video/mp4'']
             else
               [''video/webm;codecs=vp8'',
                ''video/webm;codecs=vp9'',
                ''video/webm'',
                ''video/mp4;codecs=avc1.42E01E'',
                ''video/mp4'']);
          audioCandidates =
            [''audio/webm;codecs=opus'',
             ''audio/webm'',
             ''audio/ogg;codecs=opus''];
          candidates = (if hasVideo then videoCandidates else audioCandidates)
      in firstSupported isTypeSupported candidates)"

declare checkFrame.simps [code]

subsection \<open>Vocabulary of the statements\<close>

text \<open>
  A band given by its offset and extent is centred within a length \<open>L\<close> up to the
  relative tolerance \<open>tol\<close>: both are finite numbers, the extent is positive, the band
  starts no more than \<open>L * tol\<close> before 0 and ends no more than \<open>L * tol\<close> after \<open>L\<close>,
  and the margins before and after it differ by at most \<open>L * tol\<close>.
\<close>

definition centred_within :: "real \<Rightarrow> js_number \<Rightarrow> js_number \<Rightarrow> real \<Rightarrow> bool" where
  "centred_within L offset extent tol =
     (finite_number offset \<and> finite_number extent \<and> 0 < the_real extent \<and>
      - (L * tol) \<le> the_real offset \<and>
      the_real offset + the_real extent \<le> L + L * tol \<and>
      \<bar>the_real offset - (L - (the_real offset + the_real extent))\<bar> \<le> L * tol)"

text \<open>The message of the warning logged when an audio track cannot be added (line 103).\<close>

definition skip_warning :: string where
  "skip_warning = ''Failed to add audio track to processed stream:''"

text \<open>
  An input audio track is forwardable when neither \<open>clone()\<close> nor \<open>addTrack\<close> throws for
  it. It is forwarded as \<open>r\<close> when \<open>r\<close> is the track itself (no \<open>clone\<close> method) or a
  copy of it that records where it was cloned from.
\<close>

definition forwardable :: "sp_env \<Rightarrow> browser \<Rightarrow> track_ref \<Rightarrow> bool" where
  "forwardable env b t =
     (clone_method (tracks b ! t) \<noteq> CloneThrows \<and> \<not> addTrack_throws env t)"

definition forwarded_as :: "browser \<Rightarrow> track_ref \<Rightarrow> track_ref \<Rightarrow> bool" where
  "forwarded_as b t r =
     (case clone_method (tracks b ! t) of
        CloneAbsent \<Rightarrow> r = t
      | CloneReturns \<Rightarrow>
          r \<noteq> t \<and> r < length (tracks b) \<and>
          tracks b ! r = (tracks b ! t)\<lparr>cloned_from := Some t\<rparr>
      | CloneThrows \<Rightarrow> False)"

text \<open>The frame rate of the canvas capture and the audio tracks of a resolved call.\<close>

definition capturedFrameRate ::
  "((js_error + media_stream) \<times> processor \<times> browser) option \<Rightarrow> real option" where
  "capturedFrameRate res =
     (case res of
        Some (Inr out, p, b) \<Rightarrow> frameRequestRate (tracks b ! hd out)
      | _ \<Rightarrow> None)"

definition outputAudioTracks ::
  "((js_error + media_stream) \<times> processor \<times> browser) option \<Rightarrow> media_stream option" where
  "outputAudioTracks res =
     (case res of
        Some (Inr out, p, b) \<Rightarrow> Some (getAudioTracks b out)
      | _ \<Rightarrow> None)"

text \<open>Newest first: every record is at least as recent as the ones after it.\<close>

definition newest_first :: "gallery_item list \<Rightarrow> bool" where
  "newest_first items = sorted_wrt (\<lambda>a b. timestamp b \<le> timestamp a) items"

subsection \<open>Example inputs\<close>

text \<open>A camera stream: video track 0 and audio track 1, both with a working \<open>clone\<close>.\<close>

definition camera_browser :: browser where
  "camera_browser =
     \<lparr>tracks =
        [\<lparr>kind = VideoKind, ended = False, clone_method = CloneReturns,
          cloned_from = None, frameRequestRate = None\<rparr>,
         \<lparr>kind = AudioKind, ended = False, clone_method = CloneReturns,
          cloned_from = None, frameRequestRate = None\<rparr>],
      raf_pending = [], raf_next = 1, console = []\<rparr>"

text \<open>The same stream with an audio track whose \<open>clone()\<close> throws.\<close>

definition faulty_clone_browser :: browser where
  "faulty_clone_browser =
     \<lparr>tracks =
        [\<lparr>kind = VideoKind, ended = False, clone_method = CloneReturns,
          cloned_from = None, frameRequestRate = None\<rparr>,
         \<lparr>kind = AudioKind, ended = False, clone_method = CloneThrows,
          cloned_from = None, frameRequestRate = None\<rparr>],
      raf_pending = [], raf_next = 1, console = []\<rparr>"

text \<open>
  A stream with a video track and three audio tracks: track 1 has a \<open>clone()\<close> that
  throws, track 2 a working \<open>clone\<close>, track 3 no \<open>clone\<close> method.
\<close>

definition mixed_browser :: browser where
  "mixed_browser =
     \<lparr>tracks =
        [\<lparr>kind = VideoKind, ended = False, clone_method = CloneReturns,
          cloned_from = None, frameRequestRate = None\<rparr>,
         \<lparr>kind = AudioKind, ended = False, clone_method = CloneThrows,
          cloned_from = None, frameRequestRate = None\<rparr>,
         \<lparr>kind = AudioKind, ended = False, clone_method = CloneReturns,
          cloned_from = None, frameRequestRate = None\<rparr>,
         \<lparr>kind = AudioKind, ended = False, clone_method = CloneAbsent,
          cloned_from = None, frameRequestRate = None\<rparr>],
      raf_pending = [], raf_next = 1, console = []\<rparr>"

text \<open>A microphone stream: audio track 0 only.\<close>

definition microphone_browser :: browser where
  "microphone_browser =
     \<lparr>tracks =
        [\<lparr>kind = AudioKind, ended = False, clone_method = CloneReturns,
          cloned_from = None, frameRequestRate = None\<rparr>],
      raf_pending = [], raf_next = 1, console = []\<rparr>"

text \<open>A browser in which every step succeeds; the first frame is there at the third poll.\<close>

definition smooth_env :: sp_env where
  "smooth_env =
     \<lparr>metadata = LoadedMetadata, play_first = None, play_retry = None,
      frame_dims = (\<lambda>k. if k < 2 then (0, 0) else (1280, 720)),
      captureStream_error = None, addTrack_throws = (\<lambda>t. False)\<rparr>"

text \<open>The same browser, except that \<open>addTrack\<close> throws for the input track 3.\<close>

definition picky_env :: sp_env where
  "picky_env =
     \<lparr>metadata = LoadedMetadata, play_first = None, play_retry = None,
      frame_dims = (\<lambda>k. if k < 2 then (0, 0) else (1280, 720)),
      captureStream_error = None, addTrack_throws = (\<lambda>t. t = 3)\<rparr>"

definition square_options :: "real \<Rightarrow> processing_options" where
  "square_options fps =
     \<lparr>opt_width = Some 1080, opt_height = Some 1080, opt_fitMode = None, opt_fps = Some fps\<rparr>"

text \<open>A processor in the middle of a run, with output tracks 2 and 3.\<close>

definition running_state :: "processor \<times> browser" where
  "running_state =
     (\<lparr>canvas = \<lparr>width = 1080, height = 1080, fillStyle = ''#000000'', ops = []\<rparr>,
       outputStream = Some [2, 3],
       inputVideo = Some \<lparr>srcObject = Some [0, 1], muted = True, playsInline = True,
                          attributes = [], videoWidth = 1280, videoHeight = 720\<rparr>,
       animationId = Some 1, isProcessing = True\<rparr>,
      \<lparr>tracks =
         [\<lparr>kind = VideoKind, ended = False, clone_method = CloneReturns,
           cloned_from = None, frameRequestRate = None\<rparr>,
          \<lparr>kind = AudioKind, ended = False, clone_method = CloneReturns,
           cloned_from = None, frameRequestRate = None\<rparr>,
          \<lparr>kind = VideoKind, ended = False, clone_method = CloneReturns,
           cloned_from = None, frameRequestRate = Some 30\<rparr>,
          \<lparr>kind = AudioKind, ended = False, clone_method = CloneReturns,
           cloned_from = Some 1, frameRequestRate = None\<rparr>],
       raf_pending = [(1, ''cover'')], raf_next = 2, console = []\<rparr>)"

text \<open>A gallery of three records, and IndexedDB outcomes.\<close>

definition photo :: "string \<Rightarrow> int \<Rightarrow> gallery_item" where
  "photo key t =
     \<lparr>item_id = key, blob = ''jpeg'', item_type = ''image/jpeg'', item_size = 4,
      timestamp = t, item_metadata = [(''source'', ''camera'')]\<rparr>"

definition three_photos :: idb where
  "three_photos =
     \<lparr>db = Some [photo ''a'' 1700000000200, photo ''b'' 1700000000100, photo ''c'' 1700000000300],
      idb_console = []\<rparr>"

definition idb_ok :: idb_env where
  "idb_ok = \<lparr>open_error = None, transaction_error = None, request_error = None\<rparr>"

definition idb_request_fails :: idb_env where
  "idb_request_fails =
     \<lparr>open_error = None, transaction_error = None,
      request_error = Some (DOMException ''UnknownError'')\<rparr>"

definition idb_open_fails :: idb_env where
  "idb_open_fails =
     \<lparr>open_error = Some (DOMException ''UnknownError''), transaction_error = None,
      request_error = None\<rparr>"

section \<open>Properties\<close>

subsection \<open>Rounding to binary64\<close>

lemma pow2_powr: "pow2 e = 2 powr (real_of_int e)"
  by (auto simp: pow2_def powr_realpow [symmetric] powr_minus field_simps)

lemma pow2_pos [simp]: "0 < pow2 e"
  by (simp add: pow2_powr)

lemma pow2_nonneg [simp]: "0 \<le> pow2 e"
  by (simp add: less_imp_le)

lemma pow2_nz [simp]: "pow2 e \<noteq> 0"
  by (metis less_irrefl pow2_pos)

lemma pow2_add: "pow2 (a + b) = pow2 a * pow2 b"
  by (simp add: pow2_powr powr_add)

lemma pow2_less_iff [simp]: "pow2 a < pow2 b \<longleftrightarrow> a < b"
  by (simp add: pow2_powr)

lemma pow2_le_iff [simp]: "pow2 a \<le> pow2 b \<longleftrightarrow> a \<le> b"
  by (simp add: pow2_powr)

lemma pow2_nat: "pow2 (int n) = 2 ^ n"
  by (simp add: pow2_def)

lemma pow2_neg_nat: "pow2 (- int n) = 1 / 2 ^ n"
  by (simp add: pow2_powr powr_minus powr_realpow field_simps)

lemma ilog2_bounds: "0 < n \<Longrightarrow> 2 ^ ilog2 n \<le> n \<and> n < 2 ^ Suc (ilog2 n)"
proof (induction n rule: ilog2.induct)
  case (1 n)
  show ?case
  proof (cases "n < 2")
    case True
    with "1.prems" show ?thesis by (simp add: ilog2.simps)
  next
    case False
    then have "0 < n div 2" by simp
    from "1.IH" [OF False this] False show ?thesis
      by (subst (1 2) ilog2.simps) (simp, linarith)
  qed
qed

lemma binade_bounds:
  assumes "0 < x"
  shows "pow2 (binade x) \<le> x \<and> x < pow2 (binade x + 1)"
proof (cases "1 \<le> x")
  case True
  define n where "n = \<lfloor>x\<rfloor>"
  have n: "0 < n" "of_int n \<le> x" "x < of_int n + 1"
    using True unfolding n_def by linarith+
  from ilog2_bounds [OF n(1)]
  have A: "2 ^ ilog2 n \<le> n" and B: "n + 1 \<le> 2 ^ Suc (ilog2 n)" by auto
  have "(of_int (2 ^ ilog2 n) :: real) \<le> of_int n" using A by (simp only: of_int_le_iff)
  then have lo: "2 ^ ilog2 n \<le> (of_int n :: real)" by simp
  have "(of_int (n + 1) :: real) \<le> of_int (2 ^ Suc (ilog2 n))" using B by (simp only: of_int_le_iff)
  then have up: "(of_int n :: real) + 1 \<le> 2 ^ Suc (ilog2 n)" by simp
  have e: "binade x = int (ilog2 n)" using True by (simp add: binade_def n_def)
  have e1: "int (ilog2 n) + 1 = int (Suc (ilog2 n))" by simp
  have "pow2 (binade x) \<le> x" unfolding e pow2_nat using lo n(2) by linarith
  moreover have "x < pow2 (binade x + 1)" unfolding e e1 pow2_nat using up n(3) by linarith
  ultimately show ?thesis by simp
next
  case False
  define N where "N = \<lceil>1 / x\<rceil>"
  have inv: "1 < 1 / x" using False assms by simp
  have N: "1 < N" "1 / x \<le> of_int N" "of_int N - 1 < 1 / x"
    using inv unfolding N_def by linarith+
  define j where "j = Suc (ilog2 (N - 1))"
  have e: "binade x = - int j" using False by (simp add: binade_def N_def j_def)
  from ilog2_bounds [of "N - 1"] N(1)
  have A: "2 ^ ilog2 (N - 1) + 1 \<le> N" and B: "N \<le> 2 ^ j"
    by (auto simp: j_def)
  have "(of_int N :: real) \<le> of_int (2 ^ j)" using B by (simp only: of_int_le_iff)
  then have up: "(of_int N :: real) \<le> 2 ^ j" by simp
  have "(of_int (2 ^ ilog2 (N - 1) + 1) :: real) \<le> of_int N" using A by (simp only: of_int_le_iff)
  then have lo: "2 ^ ilog2 (N - 1) \<le> (of_int N :: real) - 1" by simp
  have "1 / x \<le> 2 ^ j" using N(2) up by linarith
  then have one: "1 / 2 ^ j \<le> x" using assms by (simp add: field_simps)
  have "2 ^ ilog2 (N - 1) < 1 / x" using lo N(3) by linarith
  then have two: "x < 1 / 2 ^ ilog2 (N - 1)" using assms by (simp add: field_simps)
  have "- int j + 1 = - int (ilog2 (N - 1))" by (simp add: j_def)
  then show ?thesis using one two unfolding e by (simp add: pow2_neg_nat)
qed

lemma binade_unique:
  assumes "pow2 e \<le> x" "x < pow2 (e + 1)"
  shows "binade x = e"
proof -
  have "0 < x" using assms(1) pow2_pos [of e] by linarith
  from binade_bounds [OF this] assms
  have "pow2 e < pow2 (binade x + 1)" "pow2 (binade x) < pow2 (e + 1)" by linarith+
  then show ?thesis by simp
qed

lemma rne_error: "\<bar>of_int (rne y) - y\<bar> \<le> 1 / 2"
  unfolding rne_def Let_def by (auto simp: abs_if) linarith+

lemma rne_unique: "\<bar>y - of_int n\<bar> < 1 / 2 \<Longrightarrow> rne y = n"
proof -
  assume a: "\<bar>y - of_int n\<bar> < 1 / 2"
  have "\<bar>of_int (rne y) - y\<bar> \<le> 1 / 2" by (rule rne_error)
  with a have "\<bar>(of_int (rne y) :: real) - of_int n\<bar> < 1" by linarith
  then have "\<bar>rne y - n\<bar> < 1" by (metis of_int_1 of_int_abs of_int_diff of_int_less_iff)
  then show ?thesis by linarith
qed

lemma quantum_pos [simp]: "0 < quantum x"
  by (simp add: quantum_def)

lemma round_error_quantum: "\<bar>round_binary64 x - x\<bar> \<le> quantum x / 2"
proof (cases "x = 0")
  case True
  then show ?thesis by (simp add: round_binary64_def less_imp_le)
next
  case False
  have q: "quantum x \<noteq> 0" by (simp add: quantum_def)
  have "round_binary64 x - x = (of_int (rne (x / quantum x)) - x / quantum x) * quantum x"
    using False q by (simp add: round_binary64_def field_simps)
  then have "\<bar>round_binary64 x - x\<bar> = \<bar>of_int (rne (x / quantum x)) - x / quantum x\<bar> * quantum x"
    by (simp add: abs_mult abs_of_pos)
  also have "\<dots> \<le> 1 / 2 * quantum x"
    by (intro mult_right_mono rne_error) (simp add: less_imp_le)
  finally show ?thesis by simp
qed

lemma round_error_normal:
  assumes "pow2 (- 1022) \<le> \<bar>x\<bar>"
  shows "\<bar>round_binary64 x - x\<bar> \<le> \<bar>x\<bar> / 2 ^ 53"
proof -
  have pos: "0 < \<bar>x\<bar>" using assms pow2_pos [of "- 1022"] by linarith
  from binade_bounds [OF pos] have b: "pow2 (binade \<bar>x\<bar>) \<le> \<bar>x\<bar>" "\<bar>x\<bar> < pow2 (binade \<bar>x\<bar> + 1)"
    by auto
  from b(2) assms have "pow2 (- 1022) < pow2 (binade \<bar>x\<bar> + 1)" by linarith
  then have "- 1022 \<le> binade \<bar>x\<bar>" by simp
  then have "quantum x = pow2 (binade \<bar>x\<bar> + (- 52))" by (simp add: quantum_def max_def)
  also have "\<dots> = pow2 (binade \<bar>x\<bar>) * (1 / 2 ^ 52)"
    unfolding pow2_add using pow2_neg_nat [of 52] by simp
  finally have "quantum x / 2 \<le> \<bar>x\<bar> / 2 ^ 53" using b(1) by simp
  with round_error_quantum [of x] show ?thesis by linarith
qed

lemma round_zero [simp]: "round_binary64 0 = 0"
  by (simp add: round_binary64_def)

lemma round_error_any: "\<bar>round_binary64 x - x\<bar> \<le> \<bar>x\<bar> / 2 ^ 53 + pow2 (- 1075)"
proof (cases "pow2 (- 1022) \<le> \<bar>x\<bar>")
  case True
  from round_error_normal [OF this] pow2_pos [of "- 1075"] show ?thesis by linarith
next
  case False
  show ?thesis
  proof (cases "x = 0")
    case True
    then show ?thesis using pow2_pos [of "- 1075"] by simp
  next
    case nz: False
    then have pos: "0 < \<bar>x\<bar>" by simp
    from binade_bounds [OF pos] False have "pow2 (binade \<bar>x\<bar>) < pow2 (- 1022)" by linarith
    then have "quantum x = pow2 (- 1075 + 1)" by (simp add: quantum_def max_def)
    also have "\<dots> = pow2 (- 1075) * 2" unfolding pow2_add by (simp add: pow2_def)
    finally have "quantum x / 2 = pow2 (- 1075)" by simp
    moreover have "0 \<le> \<bar>x\<bar> / 2 ^ 53" by simp
    ultimately show ?thesis using round_error_quantum [of x] by linarith
  qed
qed

lemma round_eqI:
  assumes "pow2 e \<le> \<bar>x\<bar>" "\<bar>x\<bar> < pow2 (e + 1)" "- 1022 \<le> e"
    and "\<bar>x / pow2 (e - 52) - of_int n\<bar> < 1 / 2"
  shows "round_binary64 x = of_int n * pow2 (e - 52)"
proof -
  have "0 < \<bar>x\<bar>" using assms(1) pow2_pos [of e] by linarith
  then have "x \<noteq> 0" by simp
  moreover have "quantum x = pow2 (e - 52)"
    using binade_unique [OF assms(1,2)] assms(3) by (simp add: quantum_def max_def)
  ultimately show ?thesis using rne_unique [OF assms(4)] by (simp add: round_binary64_def)
qed

lemma pow2_numeral_le: "(2::real) ^ n = pow2 (int n)"
  by (simp add: pow2_nat)

lemma round_magnitude: "\<bar>round_binary64 x\<bar> \<le> 2 * \<bar>x\<bar> + pow2 (- 1075)"
proof -
  have "\<bar>x\<bar> / 2 ^ 53 \<le> \<bar>x\<bar>"
    by (simp add: field_simps mult_le_cancel_left1)
  with round_error_any [of x] show ?thesis by linarith
qed

lemma to_number_finite:
  assumes "\<bar>x\<bar> \<le> pow2 1000"
  shows "finite_number (to_number s x)" and "the_real (to_number s x) = round_binary64 x"
proof -
  have "pow2 (- 1075) \<le> pow2 1000" by simp
  with round_magnitude [of x] assms have "\<bar>round_binary64 x\<bar> \<le> 3 * pow2 1000" by linarith
  also have "\<dots> < pow2 2 * pow2 1000" by (simp add: pow2_def)
  also have "\<dots> = pow2 1002" unfolding pow2_add [symmetric] by simp
  also have "\<dots> \<le> pow2 1024" by simp
  finally have small: "\<not> pow2 1024 \<le> \<bar>round_binary64 x\<bar>" by simp
  show "finite_number (to_number s x)" "the_real (to_number s x) = round_binary64 x"
    using small by (simp_all add: to_number_def Let_def signed_zero_def)
qed

lemma js_div_finite:
  assumes "finite_number a" "finite_number b" "the_real b \<noteq> 0"
    and "\<bar>the_real a / the_real b\<bar> \<le> pow2 1000"
  shows "finite_number (js_div a b)"
    and "the_real (js_div a b) = round_binary64 (the_real a / the_real b)"
proof -
  have "js_div a b = to_number (is_negative a \<noteq> is_negative b) (the_real a / the_real b)"
    using assms(1-3) by (cases a; cases b) (simp_all add: js_div_def)
  then show "finite_number (js_div a b)"
    "the_real (js_div a b) = round_binary64 (the_real a / the_real b)"
    using to_number_finite [OF assms(4)] by simp_all
qed

lemma js_mul_finite:
  assumes "finite_number a" "finite_number b"
    and "\<bar>the_real a * the_real b\<bar> \<le> pow2 1000"
  shows "finite_number (js_mul a b)"
    and "the_real (js_mul a b) = round_binary64 (the_real a * the_real b)"
proof -
  have "js_mul a b = to_number (is_negative a \<noteq> is_negative b) (the_real a * the_real b)"
    using assms(1-2) by (cases a; cases b) (simp_all add: js_mul_def)
  then show "finite_number (js_mul a b)"
    "the_real (js_mul a b) = round_binary64 (the_real a * the_real b)"
    using to_number_finite [OF assms(3)] by simp_all
qed

lemma js_sub_finite:
  assumes "finite_number a" "finite_number b"
    and "\<bar>the_real a - the_real b\<bar> \<le> pow2 1000"
  shows "finite_number (js_sub a b)"
    and "the_real (js_sub a b) = round_binary64 (the_real a - the_real b)"
proof -
  let ?d = "the_real a - the_real b"
  have "js_sub a b = to_number (?d < 0) ?d \<or> (?d = 0 \<and> (js_sub a b = Finite 0 \<or> js_sub a b = NegZero))"
    using assms(1-2) by (cases a; cases b) (auto simp: js_sub_def js_add_def signed_zero_def Let_def)
  then show "finite_number (js_sub a b)"
    "the_real (js_sub a b) = round_binary64 (the_real a - the_real b)"
    using to_number_finite [OF assms(3)] by auto
qed

lemma js_gt_finite:
  "finite_number a \<Longrightarrow> finite_number b \<Longrightarrow> js_gt a b \<longleftrightarrow> the_real b < the_real a"
  by (cases a; cases b) (simp_all add: js_gt_def)

text \<open>Relative error of rounding a positive number in the normal range.\<close>

lemma round_pos_bounds:
  assumes "pow2 (- 1022) \<le> x"
  shows "x - x / 2 ^ 53 \<le> round_binary64 x" and "round_binary64 x \<le> x + x / 2 ^ 53"
proof -
  have "0 < x" using assms pow2_pos [of "- 1022"] by linarith
  then have "pow2 (- 1022) \<le> \<bar>x\<bar>" "\<bar>x\<bar> = x" using assms by simp_all
  from round_error_normal [OF this(1)] this(2)
  show "x - x / 2 ^ 53 \<le> round_binary64 x" "round_binary64 x \<le> x + x / 2 ^ 53"
    by linarith+
qed

subsection \<open>Rounding error of the fitted rectangle\<close>

lemma pw:
  "(2::real) ^ 50 = 1125899906842624"
  "(2::real) ^ 53 = 9007199254740992"
  "(2::real) ^ 55 = 36028797018963968"
  by simp_all

lemma centred_offset:
  fixes L S t X eta :: real
  assumes "0 < S" "S \<le> L + 3 * L / 2 ^ 53"
    and "\<bar>t - (L - S)\<bar> \<le> \<bar>L - S\<bar> / 2 ^ 53 + eta"
    and "\<bar>X - t / 2\<bar> \<le> \<bar>t / 2\<bar> / 2 ^ 53 + eta"
    and "0 \<le> eta" "eta \<le> L / 2 ^ 55"
  shows "- (L / 2 ^ 50) \<le> X" and "X + S \<le> L + L / 2 ^ 50"
    and "\<bar>X - (L - (X + S))\<bar> \<le> L / 2 ^ 50"
proof -
  note a = assms [unfolded pw]
  define d where "d = L - S"
  have L: "0 < L" using a(1,2) by linarith
  have d: "- (3 * L / 9007199254740992) \<le> d" "d < L" using a(1,2) unfolding d_def by linarith+
  have ad: "\<bar>d\<bar> \<le> L" using d L by linarith
  have t: "\<bar>t - d\<bar> \<le> L / 9007199254740992 + eta"
    using a(3) ad unfolding d_def [symmetric] by linarith
  have at: "\<bar>t\<bar> \<le> 2 * L" using t ad a(6) L by linarith
  have x: "\<bar>X - t / 2\<bar> \<le> L / 9007199254740992 + eta"
    using a(4) at by linarith
  have hi: "\<bar>X - d / 2\<bar> \<le> 2 * L / 9007199254740992"
    using x t a(5,6) L by linarith
  show "- (L / 2 ^ 50) \<le> X" unfolding pw using hi d(1) L by linarith
  have "X \<le> d / 2 + 2 * L / 9007199254740992" using hi by linarith
  moreover have "d / 2 + S = (L + S) / 2" by (simp add: d_def field_simps)
  ultimately have "X + S \<le> (L + S) / 2 + 2 * L / 9007199254740992" by linarith
  moreover have "(L + S) / 2 = L / 2 + S / 2" by (simp add: field_simps)
  ultimately show "X + S \<le> L + L / 2 ^ 50" unfolding pw using a(2) L by linarith
  have "X - (L - (X + S)) = 2 * (X - d / 2)" by (simp add: d_def field_simps)
  then have "\<bar>X - (L - (X + S))\<bar> = \<bar>2 * (X - d / 2)\<bar>" by (simp only:)
  also have "\<dots> = 2 * \<bar>X - d / 2\<bar>" by (simp only: abs_mult abs_numeral)
  finally have eq: "\<bar>X - (L - (X + S))\<bar> = 2 * \<bar>X - d / 2\<bar>" .
  define B where "B = \<bar>X - d / 2\<bar>"
  have "2 * B \<le> L / 1125899906842624" using hi L unfolding B_def [symmetric] by linarith
  then show "\<bar>X - (L - (X + S))\<bar> \<le> L / 2 ^ 50"
    unfolding pw eq B_def .
qed

lemma product_fit:
  fixes x1 x2 y1 y2 r1 r2 S :: real
  assumes pos: "0 < x1" "0 < x2" "0 < y1" "0 < y2"
    and r1: "x1 / x2 - (x1 / x2) / 2 ^ 53 \<le> r1" "r1 \<le> x1 / x2 + (x1 / x2) / 2 ^ 53"
    and r2: "r2 \<le> y1 / y2 + (y1 / y2) / 2 ^ 53"
    and le: "r1 \<le> r2"
    and S: "y2 * r1 - (y2 * r1) / 2 ^ 53 \<le> S" "S \<le> y2 * r1 + (y2 * r1) / 2 ^ 53"
  shows "0 < S" and "S \<le> y1 + 3 * y1 / 2 ^ 53"
    and "\<bar>S / y2 - x1 / x2\<bar> \<le> (x1 / x2) / 2 ^ 50"
proof -
  define q1 where "q1 = x1 / x2"
  define p where "p = y2 * r1"
  define a where "a = S / y2"
  note r1' = r1 [unfolded pw, folded q1_def]
  note S' = S [unfolded pw, folded p_def]
  have q1: "0 < q1" using pos by (simp add: q1_def)
  have r1pos: "0 < r1" using r1'(1) q1 by linarith
  have ppos: "0 < p" using pos r1pos by (simp add: p_def)
  have "y2 * r2 \<le> y2 * (y1 / y2 + (y1 / y2) / 2 ^ 53)"
    using r2 pos by (intro mult_left_mono) simp_all
  also have "\<dots> = y1 + y1 / 2 ^ 53" using pos by (simp add: field_simps)
  finally have "y2 * r2 \<le> y1 + y1 / 9007199254740992" unfolding pw .
  moreover have "p \<le> y2 * r2" unfolding p_def using le pos by (intro mult_left_mono) simp_all
  ultimately have p_le: "p \<le> y1 + y1 / 9007199254740992" by linarith
  show "0 < S" using S'(1) ppos by linarith
  show "S \<le> y1 + 3 * y1 / 2 ^ 53"
    unfolding pw using S'(2) p_le pos(3) ppos by linarith
  have "a * y2 = S" using pos by (simp add: a_def)
  then have "y2 * a \<le> y2 * (r1 + r1 / 9007199254740992)"
    "y2 * (r1 - r1 / 9007199254740992) \<le> y2 * a"
    using S' unfolding p_def by (simp_all add: algebra_simps)
  then have a: "a \<le> r1 + r1 / 9007199254740992" "r1 - r1 / 9007199254740992 \<le> a"
    using pos(4) by (simp_all only: mult_le_cancel_left_pos)
  show "\<bar>S / y2 - x1 / x2\<bar> \<le> (x1 / x2) / 2 ^ 50"
    unfolding pw a_def [symmetric] q1_def [symmetric] using a r1' q1 by linarith
qed

lemma quotient_fit:
  fixes x1 x2 y1 y2 r1 r2 S :: real
  assumes pos: "0 < x1" "0 < x2" "0 < y1" "0 < y2"
    and r1: "x1 / x2 - (x1 / x2) / 2 ^ 53 \<le> r1" "r1 \<le> x1 / x2 + (x1 / x2) / 2 ^ 53"
    and r2: "y1 / y2 - (y1 / y2) / 2 ^ 53 \<le> r2"
    and le: "r2 \<le> r1"
    and S: "y1 / r1 - (y1 / r1) / 2 ^ 53 \<le> S" "S \<le> y1 / r1 + (y1 / r1) / 2 ^ 53"
  shows "0 < S" and "S \<le> y2 + 3 * y2 / 2 ^ 53"
    and "\<bar>y1 / S - x1 / x2\<bar> \<le> (x1 / x2) / 2 ^ 50"
proof -
  define q1 where "q1 = x1 / x2"
  define q2 where "q2 = y1 / y2"
  define p where "p = y1 / r1"
  note r1' = r1 [unfolded pw, folded q1_def]
  note r2' = r2 [unfolded pw, folded q2_def]
  note S' = S [unfolded pw, folded p_def]
  have q1: "0 < q1" and q2: "0 < q2" using pos by (simp_all add: q1_def q2_def)
  have r1pos: "0 < r1" using r1'(1) q1 by linarith
  have ppos: "0 < p" using pos r1pos by (simp add: p_def)
  have pr: "p * r1 = y1" using r1pos by (simp add: p_def)
  have qy: "q2 * y2 = y1" using pos by (simp add: q2_def)
  have Spos: "0 < S" using S'(1) ppos by linarith
  show "0 < S" by (rule Spos)
  have "q2 - q2 / 9007199254740992 \<le> r1" using r2' le by linarith
  then have "p * (q2 - q2 / 9007199254740992) \<le> p * r1"
    using ppos by (intro mult_left_mono) simp_all
  then have "q2 * (p - p / 9007199254740992) \<le> q2 * y2"
    unfolding pr qy by (simp add: algebra_simps)
  then have p_le: "p - p / 9007199254740992 \<le> y2"
    using q2 by (simp only: mult_le_cancel_left_pos)
  show "S \<le> y2 + 3 * y2 / 2 ^ 53"
    unfolding pw using S'(2) p_le pos(4) ppos by linarith
  define a where "a = y1 / S"
  have aS: "a * S = p * r1" using Spos pr by (simp add: a_def)
  have apos: "0 < a" using pos Spos by (simp add: a_def)
  have "a * S \<le> a * (p + p / 9007199254740992)"
    using S'(2) apos by (intro mult_left_mono) simp_all
  then have "p * r1 \<le> p * (a + a / 9007199254740992)"
    unfolding aS by (simp add: algebra_simps)
  then have up: "r1 \<le> a + a / 9007199254740992"
    using ppos by (simp only: mult_le_cancel_left_pos)
  have "a * (p - p / 9007199254740992) \<le> a * S"
    using S'(1) apos by (intro mult_left_mono) simp_all
  then have "p * (a - a / 9007199254740992) \<le> p * r1"
    unfolding aS by (simp add: algebra_simps)
  then have lo: "a - a / 9007199254740992 \<le> r1"
    using ppos by (simp only: mult_le_cancel_left_pos)
  show "\<bar>y1 / S - x1 / x2\<bar> \<le> (x1 / x2) / 2 ^ 50"
    unfolding pw a_def [symmetric] q1_def [symmetric] using up lo r1' q1 apos by linarith
qed

lemma div_range:
  assumes "pow2 l1 \<le> x" "x \<le> pow2 h1" "pow2 l2 \<le> y" "y \<le> pow2 h2"
  shows "pow2 (l1 - h2) \<le> x / y" and "x / y \<le> pow2 (h1 - l2)"
proof -
  have y: "0 < y" using assms(3) pow2_pos [of l2] by linarith
  have x: "0 < x" using assms(1) pow2_pos [of l1] by linarith
  have "pow2 (l1 - h2) * y \<le> pow2 (l1 - h2) * pow2 h2"
    using assms(4) by (intro mult_left_mono) simp_all
  also have "\<dots> = pow2 l1" unfolding pow2_add [symmetric] by simp
  finally show "pow2 (l1 - h2) \<le> x / y" using y assms(1) by (simp add: pos_le_divide_eq)
  have "x \<le> pow2 h1" by (rule assms(2))
  also have "\<dots> = pow2 (h1 - l2) * pow2 l2" unfolding pow2_add [symmetric] by simp
  also have "\<dots> \<le> pow2 (h1 - l2) * y" using assms(3) by (intro mult_left_mono) simp_all
  finally show "x / y \<le> pow2 (h1 - l2)" using y by (simp add: pos_divide_le_eq)
qed

lemma mul_range:
  assumes "pow2 l1 \<le> x" "x \<le> pow2 h1" "pow2 l2 \<le> y" "y \<le> pow2 h2"
  shows "pow2 (l1 + l2) \<le> x * y" and "x * y \<le> pow2 (h1 + h2)"
proof -
  have y: "0 < y" using assms(3) pow2_pos [of l2] by linarith
  have x: "0 < x" using assms(1) pow2_pos [of l1] by linarith
  show "pow2 (l1 + l2) \<le> x * y" unfolding pow2_add
    using assms(1,3) x y by (intro mult_mono) simp_all
  show "x * y \<le> pow2 (h1 + h2)" unfolding pow2_add
    using assms(2,4) x y by (intro mult_mono) simp_all
qed

lemma round_range:
  assumes "pow2 l \<le> x" "x \<le> pow2 h" "- 1022 \<le> l"
  shows "pow2 (l - 1) \<le> round_binary64 x" and "round_binary64 x \<le> pow2 (h + 1)"
proof -
  have n: "pow2 (- 1022) \<le> x" using assms(1,3) pow2_le_iff [of "- 1022" l] by linarith
  have x: "0 < x" using assms(1) pow2_pos [of l] by linarith
  note b = round_pos_bounds [OF n, unfolded pw]
  have "pow2 (l - 1) * 2 = pow2 l" using pow2_add [of "l - 1" 1] by (simp add: pow2_def)
  then show "pow2 (l - 1) \<le> round_binary64 x" using b(1) assms(1) x by linarith
  have "pow2 (h + 1) = pow2 h * 2" using pow2_add [of h 1] by (simp add: pow2_def)
  then show "round_binary64 x \<le> pow2 (h + 1)" using b(2) assms(2) x by linarith
qed

lemma abs_le_pow2: "0 \<le> x \<Longrightarrow> x \<le> pow2 h \<Longrightarrow> h \<le> 1000 \<Longrightarrow> \<bar>x\<bar> \<le> pow2 1000"
  using pow2_le_iff [of h 1000] by linarith

text \<open>The offset \<open>(L - S) / 2\<close> as the source computes it, for a band \<open>S\<close> in a length \<open>L\<close>.\<close>

lemma offset_fits:
  assumes L: "pow2 (- 250) \<le> L" "L \<le> pow2 250"
    and S: "finite_number S" "0 < the_real S" "the_real S \<le> pow2 752"
      "the_real S \<le> L + 3 * L / 2 ^ 53"
    and X: "X = js_div (js_sub (Finite L) S) (Finite 2)"
  shows "finite_number X" and "- (L / 2 ^ 50) \<le> the_real X"
    and "the_real X + the_real S \<le> L + L / 2 ^ 50"
    and "\<bar>the_real X - (L - (the_real X + the_real S))\<bar> \<le> L / 2 ^ 50"
proof -
  let ?s = "the_real S"
  have Lpos: "0 < L" using L(1) pow2_pos [of "- 250"] by linarith
  have p: "pow2 250 \<le> pow2 752" "pow2 752 * 2 = pow2 753" "pow2 753 \<le> pow2 998"
    "pow2 998 * 4 = pow2 1000" "pow2 (- 1075) \<le> pow2 752"
    using pow2_add [of 752 1] pow2_add [of 998 2] by (simp_all add: pow2_def)
  have d: "\<bar>L - ?s\<bar> \<le> pow2 753" using L(2) S(2,3) Lpos p by linarith
  have "pow2 753 \<le> pow2 1000" by simp
  with d have "\<bar>L - ?s\<bar> \<le> pow2 1000" by linarith
  then have d1000: "\<bar>the_real (Finite L) - ?s\<bar> \<le> pow2 1000" by simp
  note sub = js_sub_finite [OF _ S(1) d1000, simplified]
  define t where "t = the_real (js_sub (Finite L) S)"
  have t: "t = round_binary64 (L - ?s)" unfolding t_def using sub(2) .
  have terr: "\<bar>t - (L - ?s)\<bar> \<le> \<bar>L - ?s\<bar> / 2 ^ 53 + pow2 (- 1075)"
    unfolding t by (rule round_error_any)
  define T where "T = \<bar>t\<bar>"
  define D where "D = \<bar>L - ?s\<bar>"
  have "T \<le> 2 * D + pow2 (- 1075)" unfolding T_def D_def t by (rule round_magnitude)
  moreover have "pow2 (- 1075) \<le> pow2 998" "pow2 753 \<le> pow2 998" "0 < pow2 998"
    by simp_all
  moreover have "D \<le> pow2 753" unfolding D_def by (rule d)
  ultimately have "T \<le> pow2 998 * 4" by linarith
  then have tmag: "\<bar>t\<bar> \<le> pow2 998 * 4" unfolding T_def .
  have "\<bar>the_real (js_sub (Finite L) S) / the_real (Finite 2)\<bar> \<le> pow2 1000"
    using tmag unfolding t_def p(4) [symmetric] by simp
  note dv = js_div_finite [OF sub(1) _ _ this, simplified]
  show "finite_number X" unfolding X using dv(1) .
  have x: "the_real X = round_binary64 (t / 2)" unfolding X t_def using dv(2) .
  have xerr: "\<bar>the_real X - t / 2\<bar> \<le> \<bar>t / 2\<bar> / 2 ^ 53 + pow2 (- 1075)"
    unfolding x by (rule round_error_any)
  have "pow2 (- 1075) \<le> pow2 (- 250) * pow2 (- 55)" unfolding pow2_add [symmetric] by simp
  also have "\<dots> = pow2 (- 250) / 2 ^ 55" using pow2_neg_nat [of 55] by simp
  also have "\<dots> \<le> L / 2 ^ 55" using L(1) by (simp add: divide_right_mono)
  finally have eta: "pow2 (- 1075) \<le> L / 2 ^ 55" .
  show "- (L / 2 ^ 50) \<le> the_real X"
    "the_real X + the_real S \<le> L + L / 2 ^ 50"
    "\<bar>the_real X - (L - (the_real X + the_real S))\<bar> \<le> L / 2 ^ 50"
    using centred_offset [OF S(2) S(4) terr xerr _ eta] by simp_all
qed

lemma abs_le_pow2_range:
  assumes "pow2 l \<le> x" "x \<le> pow2 h" "h \<le> 1000"
  shows "\<bar>x\<bar> \<le> pow2 1000"
proof -
  have "0 < x" using assms(1) pow2_pos [of l] by linarith
  then show ?thesis using abs_le_pow2 [OF _ assms(2,3)] by simp
qed

lemma ratio_facts:
  assumes "pow2 (- 250) \<le> x" "x \<le> pow2 250" "pow2 (- 250) \<le> y" "y \<le> pow2 250"
  shows "finite_number (js_div (Finite x) (Finite y))"
    and "the_real (js_div (Finite x) (Finite y)) = round_binary64 (x / y)"
    and "x / y - (x / y) / 2 ^ 53 \<le> round_binary64 (x / y)"
    and "round_binary64 (x / y) \<le> x / y + (x / y) / 2 ^ 53"
    and "pow2 (- 501) \<le> round_binary64 (x / y)"
    and "round_binary64 (x / y) \<le> pow2 501"
    and "0 < x" and "0 < y"
proof -
  show x: "0 < x" and y: "0 < y"
    using assms(1,3) pow2_pos [of "- 250"] by linarith+
  note q = div_range [OF assms, simplified]
  have "\<bar>the_real (Finite x) / the_real (Finite y)\<bar> \<le> pow2 1000"
    using abs_le_pow2 [OF _ q(2)] x y by simp
  from js_div_finite [OF _ _ _ this] y
  show "finite_number (js_div (Finite x) (Finite y))"
    "the_real (js_div (Finite x) (Finite y)) = round_binary64 (x / y)" by simp_all
  have n: "pow2 (- 1022) \<le> x / y" using q(1) pow2_le_iff [of "- 1022" "- 500"] by linarith
  show "x / y - (x / y) / 2 ^ 53 \<le> round_binary64 (x / y)"
    "round_binary64 (x / y) \<le> x / y + (x / y) / 2 ^ 53"
    using round_pos_bounds [OF n] by simp_all
  show "pow2 (- 501) \<le> round_binary64 (x / y)" "round_binary64 (x / y) \<le> pow2 501"
    using round_range [OF q] by simp_all
qed

lemma fitted_product:
  assumes x1: "pow2 (- 250) \<le> x1" "x1 \<le> pow2 250"
    and x2: "pow2 (- 250) \<le> x2" "x2 \<le> pow2 250"
    and y1: "pow2 (- 250) \<le> y1" "y1 \<le> pow2 250"
    and y2: "pow2 (- 250) \<le> y2" "y2 \<le> pow2 250"
    and le: "the_real (js_div (Finite x1) (Finite x2)) \<le> the_real (js_div (Finite y1) (Finite y2))"
    and S: "S = js_mul (Finite y2) (js_div (Finite x1) (Finite x2))"
  shows "finite_number S" and "0 < the_real S" and "the_real S \<le> pow2 752"
    and "the_real S \<le> y1 + 3 * y1 / 2 ^ 53"
    and "\<bar>the_real S / y2 - x1 / x2\<bar> \<le> (x1 / x2) / 2 ^ 50"
proof -
  note rx = ratio_facts [OF x1 x2]
  note ry = ratio_facts [OF y1 y2]
  define r1 where "r1 = round_binary64 (x1 / x2)"
  define r2 where "r2 = round_binary64 (y1 / y2)"
  have le': "r1 \<le> r2" using le unfolding rx(2) ry(2) r1_def r2_def .
  note p = mul_range [OF y2 rx(5,6), simplified, folded r1_def]
  have "\<bar>the_real (Finite y2) * the_real (js_div (Finite x1) (Finite x2))\<bar> \<le> pow2 1000"
    unfolding rx(2) r1_def [symmetric] using abs_le_pow2_range [OF p] by simp
  note m = js_mul_finite [OF _ rx(1) this, simplified, folded S, unfolded rx(2), folded r1_def]
  show "finite_number S" by (rule m(1))
  have n: "pow2 (- 1022) \<le> y2 * r1" using p(1) pow2_le_iff [of "- 1022" "- 751"] by linarith
  note sb = round_pos_bounds [OF n, folded m(2)]
  have "the_real S \<le> pow2 (751 + 1)" unfolding m(2) by (rule round_range(2) [OF p]) simp
  then show "the_real S \<le> pow2 752" by simp
  note f = product_fit [OF rx(7,8) ry(7,8) rx(3,4) [folded r1_def] ry(4) [folded r2_def] le' sb]
  show "0 < the_real S" "the_real S \<le> y1 + 3 * y1 / 2 ^ 53"
    "\<bar>the_real S / y2 - x1 / x2\<bar> \<le> (x1 / x2) / 2 ^ 50"
    by (rule f)+
qed

lemma fitted_quotient:
  assumes x1: "pow2 (- 250) \<le> x1" "x1 \<le> pow2 250"
    and x2: "pow2 (- 250) \<le> x2" "x2 \<le> pow2 250"
    and y1: "pow2 (- 250) \<le> y1" "y1 \<le> pow2 250"
    and y2: "pow2 (- 250) \<le> y2" "y2 \<le> pow2 250"
    and le: "the_real (js_div (Finite y1) (Finite y2)) \<le> the_real (js_div (Finite x1) (Finite x2))"
    and S: "S = js_div (Finite y1) (js_div (Finite x1) (Finite x2))"
  shows "finite_number S" and "0 < the_real S" and "the_real S \<le> pow2 752"
    and "the_real S \<le> y2 + 3 * y2 / 2 ^ 53"
    and "\<bar>y1 / the_real S - x1 / x2\<bar> \<le> (x1 / x2) / 2 ^ 50"
proof -
  note rx = ratio_facts [OF x1 x2]
  note ry = ratio_facts [OF y1 y2]
  define r1 where "r1 = round_binary64 (x1 / x2)"
  define r2 where "r2 = round_binary64 (y1 / y2)"
  have le': "r2 \<le> r1" using le unfolding rx(2) ry(2) r1_def r2_def .
  have r1pos: "0 < r1" using rx(5) pow2_pos [of "- 501"] unfolding r1_def by linarith
  note p = div_range [OF y1 rx(5,6), simplified, folded r1_def]
  have "\<bar>the_real (Finite y1) / the_real (js_div (Finite x1) (Finite x2))\<bar> \<le> pow2 1000"
    unfolding rx(2) r1_def [symmetric] using abs_le_pow2_range [OF p] by simp
  moreover have "the_real (js_div (Finite x1) (Finite x2)) \<noteq> 0"
    unfolding rx(2) r1_def [symmetric] using r1pos by simp
  ultimately have m: "finite_number S" "the_real S = round_binary64 (y1 / r1)"
    using js_div_finite [OF _ rx(1), of "Finite y1"] unfolding S rx(2) r1_def by simp_all
  show "finite_number S" by (rule m(1))
  have n: "pow2 (- 1022) \<le> y1 / r1" using p(1) pow2_le_iff [of "- 1022" "- 751"] by linarith
  note sb = round_pos_bounds [OF n, folded m(2)]
  have "the_real S \<le> pow2 (751 + 1)" unfolding m(2) by (rule round_range(2) [OF p]) simp
  then show "the_real S \<le> pow2 752" by simp
  note f = quotient_fit [OF rx(7,8) ry(7,8) rx(3,4) [folded r1_def] ry(3) [folded r2_def] le' sb]
  show "0 < the_real S" "the_real S \<le> y2 + 3 * y2 / 2 ^ 53"
    "\<bar>y1 / the_real S - x1 / x2\<bar> \<le> (x1 / x2) / 2 ^ 50"
    by (rule f)+
qed

lemma centred_withinI:
  assumes "finite_number X" "finite_number S" "0 < the_real S" "- (L / 2 ^ 50) \<le> the_real X"
    "the_real X + the_real S \<le> L + L / 2 ^ 50"
    "\<bar>the_real X - (L - (the_real X + the_real S))\<bar> \<le> L / 2 ^ 50"
  shows "centred_within L X S (1 / 2 ^ 50)"
  using assms by (simp add: centred_within_def)

lemma centred_within_full: "0 < L \<Longrightarrow> centred_within L (Finite 0) (Finite L) (1 / 2 ^ 50)"
  by (simp add: centred_within_def)

lemma size_range:
  fixes x :: real
  assumes "1 / 2 ^ 250 \<le> x" "x \<le> 2 ^ 250"
  shows "pow2 (- 250) \<le> x" "x \<le> pow2 250"
  using assms pow2_neg_nat [of 250] pow2_nat [of 250] by simp_all

subsection \<open>Two frames evaluated\<close>

text \<open>
  The numbers computed for a 704 x 480 frame covered into a 704 x 480 output, and for a
  352 x 288 frame contained in an 880 x 720 canvas.
\<close>

lemma to_number_Finite:
  assumes "\<bar>x\<bar> \<le> pow2 1000" "round_binary64 x \<noteq> 0"
  shows "to_number s x = Finite (round_binary64 x)"
proof -
  from to_number_finite [OF assms(1), of s] assms(2) show ?thesis
    by (cases "to_number s x") (auto simp: to_number_def Let_def signed_zero_def signed_infinity_def split: if_splits)
qed

text \<open>Evaluating one rounding: the binade \<open>e\<close> and the integer significand \<open>n\<close> are given.\<close>

lemma round_eval:
  assumes "pow2 e \<le> \<bar>x\<bar>" "\<bar>x\<bar> < pow2 (e + 1)" "- 1022 \<le> e" "e \<le> 999"
    and "\<bar>x / pow2 (e - 52) - of_int n\<bar> < 1 / 2" "n \<noteq> 0"
  shows "to_number s x = Finite (of_int n * pow2 (e - 52))"
proof -
  have r: "round_binary64 x = of_int n * pow2 (e - 52)" by (rule round_eqI [OF assms(1,2,3,5)])
  have "\<bar>x\<bar> \<le> pow2 (e + 1)" using assms(2) by simp
  moreover have "pow2 (e + 1) \<le> pow2 1000" using assms(4) by simp
  ultimately have "\<bar>x\<bar> \<le> pow2 1000" by linarith
  from to_number_Finite [OF this] r assms(6) show ?thesis by simp
qed

lemma ratio_22_15:
  "js_div (Finite 704) (Finite 480) = Finite (6605279453476727 / 4503599627370496)"
proof -
  have "to_number False (704 / 480) = Finite (of_int 6605279453476727 * pow2 (0 - 52))"
    by (rule round_eval) (simp_all add: pow2_def)
  then show ?thesis by (simp add: js_div_def pow2_def)
qed

lemma cover_704_480_height:
  "js_div (Finite 704) (Finite (6605279453476727 / 4503599627370496)) =
     Finite (8444249301319681 / 17592186044416)"
proof -
  have "to_number False (704 / (6605279453476727 / 4503599627370496)) =
      Finite (of_int 8444249301319681 * pow2 (8 - 52))"
    by (rule round_eval) (simp_all add: pow2_def)
  then show ?thesis by (simp add: js_div_def pow2_def)
qed

lemma cover_704_480_gap:
  "js_sub (Finite 480) (Finite (8444249301319681 / 17592186044416)) =
     Finite (- (1 / 17592186044416))"
proof -
  have "to_number True (480 - 8444249301319681 / 17592186044416) =
      Finite (of_int (- 4503599627370496) * pow2 (- 44 - 52))"
    by (rule round_eval) (simp_all add: pow2_def)
  then show ?thesis by (simp add: js_sub_def js_add_def pow2_def)
qed

lemma cover_704_480_offset:
  "js_div (Finite (- (1 / 17592186044416))) (Finite 2) = Finite (- (1 / 35184372088832))"
proof -
  have "to_number True (- (1 / 17592186044416) / 2) =
      Finite (of_int (- 4503599627370496) * pow2 (- 45 - 52))"
    by (rule round_eval) (simp_all add: pow2_def)
  then show ?thesis by (simp add: js_div_def pow2_def)
qed

lemma ratio_11_9:
  "js_div (Finite 352) (Finite 288) = Finite (1376099886140985 / 1125899906842624)"
  "js_div (Finite 880) (Finite 720) = Finite (1376099886140985 / 1125899906842624)"
proof -
  have "to_number False (352 / 288) = Finite (of_int 5504399544563940 * pow2 (0 - 52))"
    by (rule round_eval) (simp_all add: pow2_def)
  then show "js_div (Finite 352) (Finite 288) = Finite (1376099886140985 / 1125899906842624)"
    by (simp add: js_div_def pow2_def)
  have "to_number False (880 / 720) = Finite (of_int 5504399544563940 * pow2 (0 - 52))"
    by (rule round_eval) (simp_all add: pow2_def)
  then show "js_div (Finite 880) (Finite 720) = Finite (1376099886140985 / 1125899906842624)"
    by (simp add: js_div_def pow2_def)
qed

lemma contain_352_288_width:
  "js_mul (Finite 720) (Finite (1376099886140985 / 1125899906842624)) =
     Finite (7740561859543041 / 8796093022208)"
proof -
  have "to_number False (720 * (1376099886140985 / 1125899906842624)) =
      Finite (of_int 7740561859543041 * pow2 (9 - 52))"
    by (rule round_eval) (simp_all add: pow2_def)
  then show ?thesis by (simp add: js_mul_def pow2_def)
qed

lemma contain_352_288_gap:
  "js_sub (Finite 880) (Finite (7740561859543041 / 8796093022208)) =
     Finite (- (1 / 8796093022208))"
proof -
  have "to_number True (880 - 7740561859543041 / 8796093022208) =
      Finite (of_int (- 4503599627370496) * pow2 (- 43 - 52))"
    by (rule round_eval) (simp_all add: pow2_def)
  then show ?thesis by (simp add: js_sub_def js_add_def pow2_def)
qed

lemma contain_352_288_offset:
  "js_div (Finite (- (1 / 8796093022208))) (Finite 2) = Finite (- (1 / 17592186044416))"
proof -
  have "to_number True (- (1 / 8796093022208) / 2) =
      Finite (of_int (- 4503599627370496) * pow2 (- 44 - 52))"
    by (rule round_eval) (simp_all add: pow2_def)
  then show ?thesis by (simp add: js_div_def pow2_def)
qed

subsection \<open>Geometry of the fit modes\<close>

text \<open>
  C1, as amended. For input and output sizes between \<open>2^-250\<close> and \<open>2^250\<close>
  (every pixel dimension is one), fit mode \<open>cover\<close> fills the whole output exactly
  (destination rectangle \<open>0, 0, outW, outH\<close>) and crops along one axis only. The source
  rectangle is finite and positive and, up to the rounding of binary64 arithmetic, lies
  inside the input frame, is centred in it and has the aspect ratio of the output: on each
  axis the offset is at least \<open>- L / 2^50\<close>, offset plus extent is at most
  \<open>L + L / 2^50\<close> and the two margins differ by at most \<open>L / 2^50\<close>, for \<open>L\<close> the
  length of the frame on that axis; and \<open>srcW / srcH\<close> is within the fraction \<open>2^-50\<close> of
  \<open>outW / outH\<close>.
\<close>

theorem cover_fills_output_and_crops_centred_up_to_rounding:
  assumes "1 / 2 ^ 250 \<le> inW" "inW \<le> 2 ^ 250" "1 / 2 ^ 250 \<le> inH" "inH \<le> 2 ^ 250"
    and "1 / 2 ^ 250 \<le> outW" "outW \<le> 2 ^ 250" "1 / 2 ^ 250 \<le> outH" "outH \<le> 2 ^ 250"
    and "g = calculateCropResize (Finite inW) (Finite inH) (Finite outW) (Finite outH) ''cover''"
  shows "destX g = Finite 0 \<and> destY g = Finite 0 \<and> destW g = Finite outW \<and> destH g = Finite outH \<and>
    centred_within inW (srcX g) (srcW g) (1 / 2 ^ 50) \<and>
    centred_within inH (srcY g) (srcH g) (1 / 2 ^ 50) \<and>
    \<bar>the_real (srcW g) / the_real (srcH g) - outW / outH\<bar> \<le> (outW / outH) / 2 ^ 50 \<and>
    ((srcY g = Finite 0 \<and> srcH g = Finite inH) \<or> (srcX g = Finite 0 \<and> srcW g = Finite inW))"
proof -
  note a = size_range [OF assms(1,2)] and b = size_range [OF assms(3,4)]
    and c = size_range [OF assms(5,6)] and d = size_range [OF assms(7,8)]
  let ?ia = "js_div (Finite inW) (Finite inH)"
  let ?oa = "js_div (Finite outW) (Finite outH)"
  note ri = ratio_facts [OF a b] and ro = ratio_facts [OF c d]
  have gt: "js_gt ?ia ?oa \<longleftrightarrow> the_real ?oa < the_real ?ia"
    by (rule js_gt_finite [OF ri(1) ro(1)])
  show ?thesis
  proof (cases "js_gt ?ia ?oa")
    case True
    define S where "S = js_mul (Finite inH) ?oa"
    define X where "X = js_div (js_sub (Finite inW) S) (Finite 2)"
    have g: "g = \<lparr>srcX = X, srcY = Finite 0, srcW = S, srcH = Finite inH,
        destX = Finite 0, destY = Finite 0, destW = Finite outW, destH = Finite outH\<rparr>"
      unfolding assms(9) using True by (simp add: calculateCropResize_def Let_def S_def X_def)
    have le: "the_real ?oa \<le> the_real ?ia" using True gt by simp
    note f = fitted_product [OF c d a b le S_def]
    note o = offset_fits [OF a f(1,2,3,4) X_def]
    have "centred_within inW X S (1 / 2 ^ 50)"
      by (rule centred_withinI [OF o(1) f(1,2) o(2,3,4)])
    moreover have "centred_within inH (Finite 0) (Finite inH) (1 / 2 ^ 50)"
      by (rule centred_within_full [OF ri(8)])
    ultimately show ?thesis unfolding g using f(5) by simp
  next
    case False
    define S where "S = js_div (Finite inW) ?oa"
    define X where "X = js_div (js_sub (Finite inH) S) (Finite 2)"
    have g: "g = \<lparr>srcX = Finite 0, srcY = X, srcW = Finite inW, srcH = S,
        destX = Finite 0, destY = Finite 0, destW = Finite outW, destH = Finite outH\<rparr>"
      unfolding assms(9) using False by (simp add: calculateCropResize_def Let_def S_def X_def)
    have le: "the_real ?ia \<le> the_real ?oa" using False gt by simp
    note f = fitted_quotient [OF c d a b le S_def]
    note o = offset_fits [OF b f(1,2,3,4) X_def]
    have "centred_within inH X S (1 / 2 ^ 50)"
      by (rule centred_withinI [OF o(1) f(1,2) o(2,3,4)])
    moreover have "centred_within inW (Finite 0) (Finite inW) (1 / 2 ^ 50)"
      by (rule centred_within_full [OF ri(7)])
    ultimately show ?thesis unfolding g using f(5) by simp
  qed
qed

theorem cover_fills_output_and_crops_centred_up_to_rounding_witness:
  "(1::real) / 2 ^ 250 \<le> 704 \<and> (704::real) \<le> 2 ^ 250 \<and>
   (1::real) / 2 ^ 250 \<le> 480 \<and> (480::real) \<le> 2 ^ 250 \<and>
   destX (calculateCropResize (Finite 704) (Finite 480) (Finite 704) (Finite 480) ''cover'') = Finite 0 \<and>
   destY (calculateCropResize (Finite 704) (Finite 480) (Finite 704) (Finite 480) ''cover'') = Finite 0 \<and>
   destW (calculateCropResize (Finite 704) (Finite 480) (Finite 704) (Finite 480) ''cover'') = Finite 704 \<and>
   destH (calculateCropResize (Finite 704) (Finite 480) (Finite 704) (Finite 480) ''cover'') = Finite 480 \<and>
   centred_within 704
     (srcX (calculateCropResize (Finite 704) (Finite 480) (Finite 704) (Finite 480) ''cover''))
     (srcW (calculateCropResize (Finite 704) (Finite 480) (Finite 704) (Finite 480) ''cover''))
     (1 / 2 ^ 50) \<and>
   centred_within 480
     (srcY (calculateCropResize (Finite 704) (Finite 480) (Finite 704) (Finite 480) ''cover''))
     (srcH (calculateCropResize (Finite 704) (Finite 480) (Finite 704) (Finite 480) ''cover''))
     (1 / 2 ^ 50) \<and>
   \<bar>the_real (srcW (calculateCropResize (Finite 704) (Finite 480) (Finite 704) (Finite 480) ''cover''))
      / the_real (srcH (calculateCropResize (Finite 704) (Finite 480) (Finite 704) (Finite 480) ''cover''))
      - 704 / 480\<bar> \<le> (704 / 480) / 2 ^ 50"
proof -
  have r: "(1::real) / 2 ^ 250 \<le> 704" "(704::real) \<le> 2 ^ 250"
    "(1::real) / 2 ^ 250 \<le> 480" "(480::real) \<le> 2 ^ 250"
    by simp_all
  note t = cover_fills_output_and_crops_centred_up_to_rounding [OF r(1,2) r(3,4) r(1,2) r(3,4) refl]
  show ?thesis using r t by (intro conjI) (erule conjE | assumption)+
qed

text \<open>
  C1 as stated fails: a 704 x 480 frame covered into a 704 x 480 output gets the source
  height \<open>480 + 2^-44\<close> at the vertical offset \<open>- 2^-45\<close>, a rectangle that starts above
  the frame and is taller than it.
\<close>

theorem cover_source_leaves_frame:
  "srcH (calculateCropResize (Finite 704) (Finite 480) (Finite 704) (Finite 480) ''cover'')
     = Finite (8444249301319681 / 17592186044416) \<and>
   srcY (calculateCropResize (Finite 704) (Finite 480) (Finite 704) (Finite 480) ''cover'')
     = Finite (- (1 / 35184372088832)) \<and>
   (480::real) < 8444249301319681 / 17592186044416 \<and>
   - (1 / 35184372088832) < (0::real)"
  by (simp add: calculateCropResize_def Let_def ratio_22_15 js_gt_def cover_704_480_height
      cover_704_480_gap cover_704_480_offset)

text \<open>
  C2, as amended. For input and output sizes between \<open>2^-250\<close> and \<open>2^250\<close>,
  fit mode \<open>contain\<close> uses the whole source frame exactly (source rectangle
  \<open>0, 0, inW, inH\<close>) and letterboxes along one axis only. The destination rectangle is
  finite and positive and, up to the rounding of binary64 arithmetic, lies inside the
  output canvas, is centred in it and has the aspect ratio of the input: on each axis the
  offset is at least \<open>- L / 2^50\<close>, offset plus extent is at most \<open>L + L / 2^50\<close> and
  the two margins differ by at most \<open>L / 2^50\<close>, for \<open>L\<close> the length of the canvas on
  that axis; and \<open>destW / destH\<close> is within the fraction \<open>2^-50\<close> of \<open>inW / inH\<close>.
\<close>

theorem contain_keeps_source_and_letterboxes_centred_up_to_rounding:
  assumes "1 / 2 ^ 250 \<le> inW" "inW \<le> 2 ^ 250" "1 / 2 ^ 250 \<le> inH" "inH \<le> 2 ^ 250"
    and "1 / 2 ^ 250 \<le> outW" "outW \<le> 2 ^ 250" "1 / 2 ^ 250 \<le> outH" "outH \<le> 2 ^ 250"
    and "g = calculateCropResize (Finite inW) (Finite inH) (Finite outW) (Finite outH) ''contain''"
  shows "srcX g = Finite 0 \<and> srcY g = Finite 0 \<and> srcW g = Finite inW \<and> srcH g = Finite inH \<and>
    centred_within outW (destX g) (destW g) (1 / 2 ^ 50) \<and>
    centred_within outH (destY g) (destH g) (1 / 2 ^ 50) \<and>
    \<bar>the_real (destW g) / the_real (destH g) - inW / inH\<bar> \<le> (inW / inH) / 2 ^ 50 \<and>
    ((destX g = Finite 0 \<and> destW g = Finite outW) \<or> (destY g = Finite 0 \<and> destH g = Finite outH))"
proof -
  note a = size_range [OF assms(1,2)] and b = size_range [OF assms(3,4)]
    and c = size_range [OF assms(5,6)] and d = size_range [OF assms(7,8)]
  let ?ia = "js_div (Finite inW) (Finite inH)"
  let ?oa = "js_div (Finite outW) (Finite outH)"
  note ri = ratio_facts [OF a b] and ro = ratio_facts [OF c d]
  have gt: "js_gt ?ia ?oa \<longleftrightarrow> the_real ?oa < the_real ?ia"
    by (rule js_gt_finite [OF ri(1) ro(1)])
  show ?thesis
  proof (cases "js_gt ?ia ?oa")
    case True
    define S where "S = js_div (Finite outW) ?ia"
    define X where "X = js_div (js_sub (Finite outH) S) (Finite 2)"
    have g: "g = \<lparr>srcX = Finite 0, srcY = Finite 0, srcW = Finite inW, srcH = Finite inH,
        destX = Finite 0, destY = X, destW = Finite outW, destH = S\<rparr>"
      unfolding assms(9) using True by (simp add: calculateCropResize_def Let_def S_def X_def)
    have le: "the_real ?oa \<le> the_real ?ia" using True gt by simp
    note f = fitted_quotient [OF a b c d le S_def]
    note o = offset_fits [OF d f(1,2,3,4) X_def]
    have "centred_within outH X S (1 / 2 ^ 50)"
      by (rule centred_withinI [OF o(1) f(1,2) o(2,3,4)])
    moreover have "centred_within outW (Finite 0) (Finite outW) (1 / 2 ^ 50)"
      by (rule centred_within_full [OF ro(7)])
    ultimately show ?thesis unfolding g using f(5) by simp
  next
    case False
    define S where "S = js_mul (Finite outH) ?ia"
    define X where "X = js_div (js_sub (Finite outW) S) (Finite 2)"
    have g: "g = \<lparr>srcX = Finite 0, srcY = Finite 0, srcW = Finite inW, srcH = Finite inH,
        destX = X, destY = Finite 0, destW = S, destH = Finite outH\<rparr>"
      unfolding assms(9) using False by (simp add: calculateCropResize_def Let_def S_def X_def)
    have le: "the_real ?ia \<le> the_real ?oa" using False gt by simp
    note f = fitted_product [OF a b c d le S_def]
    note o = offset_fits [OF c f(1,2,3,4) X_def]
    have "centred_within outW X S (1 / 2 ^ 50)"
      by (rule centred_withinI [OF o(1) f(1,2) o(2,3,4)])
    moreover have "centred_within outH (Finite 0) (Finite outH) (1 / 2 ^ 50)"
      by (rule centred_within_full [OF ro(8)])
    ultimately show ?thesis unfolding g using f(5) by simp
  qed
qed

theorem contain_keeps_source_and_letterboxes_centred_up_to_rounding_witness:
  "(1::real) / 2 ^ 250 \<le> 352 \<and> (352::real) \<le> 2 ^ 250 \<and>
   (1::real) / 2 ^ 250 \<le> 288 \<and> (288::real) \<le> 2 ^ 250 \<and>
   (1::real) / 2 ^ 250 \<le> 880 \<and> (880::real) \<le> 2 ^ 250 \<and>
   (1::real) / 2 ^ 250 \<le> 720 \<and> (720::real) \<le> 2 ^ 250 \<and>
   srcX (calculateCropResize (Finite 352) (Finite 288) (Finite 880) (Finite 720) ''contain'') = Finite 0 \<and>
   srcY (calculateCropResize (Finite 352) (Finite 288) (Finite 880) (Finite 720) ''contain'') = Finite 0 \<and>
   srcW (calculateCropResize (Finite 352) (Finite 288) (Finite 880) (Finite 720) ''contain'') = Finite 352 \<and>
   srcH (calculateCropResize (Finite 352) (Finite 288) (Finite 880) (Finite 720) ''contain'') = Finite 288 \<and>
   centred_within 880
     (destX (calculateCropResize (Finite 352) (Finite 288) (Finite 880) (Finite 720) ''contain''))
     (destW (calculateCropResize (Finite 352) (Finite 288) (Finite 880) (Finite 720) ''contain''))
     (1 / 2 ^ 50) \<and>
   centred_within 720
     (destY (calculateCropResize (Finite 352) (Finite 288) (Finite 880) (Finite 720) ''contain''))
     (destH (calculateCropResize (Finite 352) (Finite 288) (Finite 880) (Finite 720) ''contain''))
     (1 / 2 ^ 50) \<and>
   \<bar>the_real (destW (calculateCropResize (Finite 352) (Finite 288) (Finite 880) (Finite 720) ''contain''))
      / the_real (destH (calculateCropResize (Finite 352) (Finite 288) (Finite 880) (Finite 720) ''contain''))
      - 352 / 288\<bar> \<le> (352 / 288) / 2 ^ 50"
proof -
  have r: "(1::real) / 2 ^ 250 \<le> 352" "(352::real) \<le> 2 ^ 250"
    "(1::real) / 2 ^ 250 \<le> 288" "(288::real) \<le> 2 ^ 250"
    "(1::real) / 2 ^ 250 \<le> 880" "(880::real) \<le> 2 ^ 250"
    "(1::real) / 2 ^ 250 \<le> 720" "(720::real) \<le> 2 ^ 250"
    by simp_all
  note t = contain_keeps_source_and_letterboxes_centred_up_to_rounding [OF r refl]
  show ?thesis using r t by (intro conjI) (erule conjE | assumption)+
qed

text \<open>
  C2 as stated fails: a 352 x 288 frame contained in an 880 x 720 canvas gets the
  destination width \<open>880 + 2^-43\<close> at the horizontal offset \<open>- 2^-44\<close>, a rectangle
  that starts left of the canvas and is wider than it.
\<close>

theorem contain_destination_leaves_canvas:
  "destW (calculateCropResize (Finite 352) (Finite 288) (Finite 880) (Finite 720) ''contain'')
     = Finite (7740561859543041 / 8796093022208) \<and>
   destX (calculateCropResize (Finite 352) (Finite 288) (Finite 880) (Finite 720) ''contain'')
     = Finite (- (1 / 17592186044416)) \<and>
   (880::real) < 7740561859543041 / 8796093022208 \<and>
   - (1 / 17592186044416) < (0::real)"
  by (simp add: calculateCropResize_def Let_def ratio_11_9 js_gt_def contain_352_288_width
      contain_352_288_gap contain_352_288_offset)

subsection \<open>The audio loop and the output stream\<close>

lemma processFrame_keeps:
  assumes "processFrame fitMode (p, b) = (p', b')"
  shows "tracks b' = tracks b" and "outputStream p' = outputStream p"
  using assms
  by (auto simp: processFrame_def requestAnimationFrame_def Let_def
      split: if_splits option.splits)

lemma processFrame_console:
  assumes "processFrame fitMode (p, b) = (p', b')"
  shows "console b' = console b"
  using assms
  by (auto simp: processFrame_def requestAnimationFrame_def Let_def
      split: if_splits option.splits)

lemma addAudioTrack_cases:
  assumes "addAudioTrack thr t (out, b) = (out', b')"
  shows "(\<not> (clone_method (tracks b ! t) \<noteq> CloneThrows \<and> \<not> thr t) \<and> out' = out \<and>
          (\<exists>xs. tracks b' = tracks b @ xs) \<and> console b' = console b @ [skip_warning])
       \<or> (clone_method (tracks b ! t) = CloneAbsent \<and> \<not> thr t \<and> out' = addTrack t out \<and>
          tracks b' = tracks b \<and> console b' = console b)
       \<or> (clone_method (tracks b ! t) = CloneReturns \<and> \<not> thr t \<and>
          out' = addTrack (length (tracks b)) out \<and>
          tracks b' = tracks b @ [(tracks b ! t)\<lparr>cloned_from := Some t\<rparr>] \<and>
          console b' = console b)"
  using assms
  by (cases "clone_method (tracks b ! t)")
     (auto simp: addAudioTrack_def cloneTrack_def warn_def skip_warning_def Let_def split: if_splits)

lemma addTrack_append: "\<exists>ys. addTrack r out = out @ ys"
  by (simp add: addTrack_def)

lemma addAudioTrack_extends:
  assumes "addAudioTrack thr t (out, b) = (out', b')"
  shows "\<exists>ys xs. out' = out @ ys \<and> tracks b' = tracks b @ xs"
  using addAudioTrack_cases [OF assms] addTrack_append by (metis append_Nil2)

lemma addAudioTracks_extends:
  assumes "addAudioTracks thr ts (out, b) = (out', b')"
  shows "\<exists>ys xs. out' = out @ ys \<and> tracks b' = tracks b @ xs"
  using assms
proof (induction ts arbitrary: out b)
  case Nil
  then show ?case by simp
next
  case (Cons t ts)
  obtain out1 b1 where step: "addAudioTrack thr t (out, b) = (out1, b1)"
    by (cases "addAudioTrack thr t (out, b)")
  with Cons.prems have rest: "addAudioTracks thr ts (out1, b1) = (out', b')" by simp
  from addAudioTrack_extends [OF step] Cons.IH [OF rest] show ?case
    by (metis append.assoc)
qed

lemma forwarded_as_mono:
  assumes "forwarded_as b t r" "t < length (tracks b)" "tracks b' = tracks b @ xs"
  shows "forwarded_as b' t r"
  using assms
  by (cases "clone_method (tracks b ! t)") (auto simp: forwarded_as_def nth_append)

lemma list_all2_right_witness:
  "list_all2 P xs ys \<Longrightarrow> y \<in> set ys \<Longrightarrow> \<exists>x\<in>set xs. P x y"
  by (induction rule: list_all2_induct) auto

text \<open>
  The loop invariant: the input tracks are distinct and older than every track made
  during the loop, so each \<open>addTrack\<close> appends, and the appended tracks stand, in order,
  for the input tracks that did not throw.
\<close>

lemma addAudioTracks_forwards:
  assumes "addAudioTracks thr ts (out, b) = (out', b')"
    and "distinct ts" and "set ts \<inter> set out = {}"
    and "\<forall>t\<in>set ts. t < n" and "n \<le> length (tracks b)"
    and "\<forall>r\<in>set out. r < length (tracks b)"
  shows "\<exists>ys xs. out' = out @ ys \<and> tracks b' = tracks b @ xs \<and>
    list_all2 (forwarded_as b')
      (filter (\<lambda>t. clone_method (tracks b ! t) \<noteq> CloneThrows \<and> \<not> thr t) ts) ys \<and>
    console b' = console b @
      map (\<lambda>t. skip_warning)
        (filter (\<lambda>t. \<not> (clone_method (tracks b ! t) \<noteq> CloneThrows \<and> \<not> thr t)) ts)"
  using assms
proof (induction ts arbitrary: out b)
  case Nil
  then show ?case by simp
next
  case (Cons t ts)
  let ?fw = "\<lambda>b t. clone_method (tracks b ! t) \<noteq> CloneThrows \<and> \<not> thr t"
  obtain out1 b1 where step: "addAudioTrack thr t (out, b) = (out1, b1)"
    by (cases "addAudioTrack thr t (out, b)")
  with Cons.prems(1) have rest: "addAudioTracks thr ts (out1, b1) = (out', b')" by simp
  have t_lt: "t < length (tracks b)" and ts_lt: "\<forall>u\<in>set ts. u < length (tracks b)"
    using Cons.prems(4,5) by auto
  have t_notin: "t \<notin> set out" "t \<notin> set ts"
    and fresh: "length (tracks b) \<notin> set out" "length (tracks b) \<notin> set ts"
    using Cons.prems(2,3,6) ts_lt by auto
  from addAudioTrack_cases [OF step]
  consider (skip) "\<not> ?fw b t" "out1 = out" "\<exists>xs. tracks b1 = tracks b @ xs"
      "console b1 = console b @ [skip_warning]"
    | (self) "clone_method (tracks b ! t) = CloneAbsent" "\<not> thr t" "out1 = out @ [t]"
        "tracks b1 = tracks b" "console b1 = console b"
    | (clone) "clone_method (tracks b ! t) = CloneReturns" "\<not> thr t"
        "out1 = out @ [length (tracks b)]"
        "tracks b1 = tracks b @ [(tracks b ! t)\<lparr>cloned_from := Some t\<rparr>]"
        "console b1 = console b"
    using t_notin fresh by (auto simp: addTrack_def)
  then obtain y1 x1 where out1: "out1 = out @ y1" and b1: "tracks b1 = tracks b @ x1"
    and first: "list_all2 (forwarded_as b1) (filter (?fw b) [t]) y1"
    and y1: "set y1 \<subseteq> {t, length (tracks b)}" "\<forall>r\<in>set y1. r < length (tracks b1)"
    and c1: "console b1 = console b @ map (\<lambda>t. skip_warning) (filter (\<lambda>t. \<not> ?fw b t) [t])"
  proof cases
    case skip
    then show ?thesis using that [of "[]"] by auto
  next
    case self
    then show ?thesis using that [of "[t]" "[]"] t_lt by (auto simp: forwarded_as_def)
  next
    case clone
    then show ?thesis
      using that [of "[length (tracks b)]" "[(tracks b ! t)\<lparr>cloned_from := Some t\<rparr>]"] t_lt
      by (auto simp: forwarded_as_def nth_append)
  qed
  have same: "filter (?fw b1) ts = filter (?fw b) ts"
    "filter (\<lambda>t. \<not> ?fw b1 t) ts = filter (\<lambda>t. \<not> ?fw b t) ts"
    using ts_lt b1 by (auto intro!: filter_cong simp: nth_append)
  have "\<exists>ys xs. out' = out1 @ ys \<and> tracks b' = tracks b1 @ xs \<and>
      list_all2 (forwarded_as b') (filter (?fw b1) ts) ys \<and>
      console b' = console b1 @ map (\<lambda>t. skip_warning) (filter (\<lambda>t. \<not> ?fw b1 t) ts)"
  proof (rule Cons.IH [OF rest])
    show "distinct ts" using Cons.prems(2) by simp
    show "set ts \<inter> set out1 = {}" using Cons.prems(3) out1 y1(1) t_notin fresh by auto
    show "\<forall>t\<in>set ts. t < n" using Cons.prems(4) by simp
    show "n \<le> length (tracks b1)" using Cons.prems(5) b1 by simp
    show "\<forall>r\<in>set out1. r < length (tracks b1)" using Cons.prems(6) out1 b1 y1(2) by auto
  qed
  then obtain ys xs where out': "out' = out1 @ ys" and b': "tracks b' = tracks b1 @ xs"
    and tail: "list_all2 (forwarded_as b') (filter (?fw b) ts) ys"
    and c': "console b' = console b1 @ map (\<lambda>t. skip_warning) (filter (\<lambda>t. \<not> ?fw b t) ts)"
    unfolding same by auto
  have head: "list_all2 (forwarded_as b') (filter (?fw b) [t]) y1"
    using first forwarded_as_mono [OF _ _ b'] t_lt b1
    by (auto simp: list_all2_Cons1 split: if_splits)
  have "list_all2 (forwarded_as b') (filter (?fw b) [t] @ filter (?fw b) ts) (y1 @ ys)"
    using head tail by (rule list_all2_appendI)
  then have l: "list_all2 (forwarded_as b') (filter (?fw b) (t # ts)) (y1 @ ys)"
    unfolding filter_append [symmetric] by simp
  have "console b' = console b @ map (\<lambda>t. skip_warning)
      (filter (\<lambda>t. \<not> ?fw b t) [t] @ filter (\<lambda>t. \<not> ?fw b t) ts)"
    unfolding c' c1 by simp
  then have c: "console b' = console b @ map (\<lambda>t. skip_warning)
      (filter (\<lambda>t. \<not> ?fw b t) (t # ts))"
    unfolding filter_append [symmetric] by simp
  show ?case
    using out' out1 b' b1 l c by (intro exI [of _ "y1 @ ys"] exI [of _ "x1 @ xs"]) simp
qed

lemma composeOutput_resolves:
  assumes "composeOutput env inp fm fps (p, b) = (Inr out, p', b')"
  shows "\<exists>b2. addAudioTracks (addTrack_throws env)
           (getAudioTracks (b\<lparr>tracks := tracks b @ [canvasTrack (safeFps fps)]\<rparr>) inp)
           ([length (tracks b)], b\<lparr>tracks := tracks b @ [canvasTrack (safeFps fps)]\<rparr>)
           = (out, b2) \<and>
         tracks b' = tracks b2 \<and> console b' = console b2"
  using assms
  by (auto simp: composeOutput_def captureStream_def Let_def
      split: option.splits prod.splits dest: processFrame_keeps(1) processFrame_console)

lemma startProcessing_resolves:
  assumes "startProcessing env inp options (p, b) = Some (Inr out, p', b')"
  shows "\<exists>p2 fm. composeOutput env inp fm
           (case opt_fps options of None \<Rightarrow> 30 | Some v \<Rightarrow> v) (p2, b) = (Inr out, p', b')"
  using assms
  by (auto simp: startProcessing_def Let_def
      split: if_splits option.splits prod.splits)

lemma resolved_structure:
  assumes "startProcessing env inp options (p, b) = Some (Inr out, p', b')"
  shows "\<exists>ys xs. out = length (tracks b) # ys \<and>
     tracks b' =
       tracks b @
       canvasTrack (safeFps (case opt_fps options of None \<Rightarrow> 30 | Some v \<Rightarrow> v)) # xs"
proof -
  let ?fps = "safeFps (case opt_fps options of None \<Rightarrow> 30 | Some v \<Rightarrow> v)"
  from startProcessing_resolves [OF assms] composeOutput_resolves
  obtain b2 where loop: "addAudioTracks (addTrack_throws env)
           (getAudioTracks (b\<lparr>tracks := tracks b @ [canvasTrack ?fps]\<rparr>) inp)
           ([length (tracks b)], b\<lparr>tracks := tracks b @ [canvasTrack ?fps]\<rparr>) = (out, b2)"
    and b': "tracks b' = tracks b2"
    by blast
  from addAudioTracks_extends [OF loop] b' show ?thesis by auto
qed

lemma getAudioTracks_after_capture:
  "getAudioTracks (b\<lparr>tracks := tracks b @ [canvasTrack fps]\<rparr>) inp = getAudioTracks b inp"
  unfolding getAudioTracks_def
  by (rule filter_cong) (auto simp: nth_append canvasTrack_def less_Suc_eq)

text \<open>Evaluation of the example runs.\<close>

lemma smooth_first_frame:
  "checkFrame (\<lambda>k. if k < 2 then (0, 0) else (1280, 720)) 0 = Some 2"
  by (simp add: checkFrame.simps)

lemmas run_simps = startProcessing_def composeOutput_def captureStream_def processFrame_def
  requestAnimationFrame_def addAudioTrack_def cloneTrack_def addTrack_def warn_def
  getVideoTracks_def getAudioTracks_def safeFps_def canvasTrack_def
  new_VideoProcessor_def square_options_def smooth_env_def smooth_first_frame Let_def

text \<open>
  When \<open>startProcessing\<close> resolves: none of the steps before the audio loop fails. The
  audio loop itself never makes the call fail.
\<close>

lemma composeOutput_total:
  "captureStream_error env = None \<Longrightarrow>
   \<exists>out p' b'. composeOutput env inp fm fps s = (Inr out, p', b')"
  by (cases s) (simp add: composeOutput_def Let_def split: prod.splits)

lemma composeOutput_rejects:
  "captureStream_error env = Some msg \<Longrightarrow> \<exists>e p' b'. composeOutput env inp fm fps s = (Inl e, p', b')"
  by (cases s) (simp add: composeOutput_def Let_def)

lemma startProcessing_reaches_compose:
  assumes "getVideoTracks b inp \<noteq> []" "metadata env \<noteq> MetadataTimeout"
    "play_first env = None \<or> play_retry env = None" "checkFrame (frame_dims env) 0 = Some k"
  shows "\<exists>p2 fm fps. startProcessing env inp options (p, b) =
     Some (composeOutput env inp fm fps (p2, b))"
  using assms by (auto simp: startProcessing_def Let_def split: option.splits)

lemma startProcessing_resolves_only_if:
  assumes "startProcessing env inp options (p, b) = Some (Inr out, p', b')"
  shows "getVideoTracks b inp \<noteq> []" "metadata env \<noteq> MetadataTimeout"
    "play_first env = None \<or> play_retry env = None" "checkFrame (frame_dims env) 0 \<noteq> None"
    "captureStream_error env = None"
proof -
  show v: "getVideoTracks b inp \<noteq> []" and m: "metadata env \<noteq> MetadataTimeout"
    and pl: "play_first env = None \<or> play_retry env = None"
    and cf: "checkFrame (frame_dims env) 0 \<noteq> None"
    using assms by (auto simp: startProcessing_def Let_def split: if_splits option.splits)
  from cf obtain k where "checkFrame (frame_dims env) 0 = Some k" by auto
  from startProcessing_reaches_compose [OF v m pl this, of options p] assms
  obtain p2 fm fps where c: "composeOutput env inp fm fps (p2, b) = (Inr out, p', b')" by auto
  show "captureStream_error env = None"
  proof (cases "captureStream_error env")
    case None
    then show ?thesis .
  next
    case (Some msg)
    from composeOutput_rejects [OF this, of inp fm fps "(p2, b)"] c show ?thesis by auto
  qed
qed

lemma startProcessing_resolves_iff:
  "(\<exists>out p' b'. startProcessing env inp options (p, b) = Some (Inr out, p', b')) \<longleftrightarrow>
     getVideoTracks b inp \<noteq> [] \<and> metadata env \<noteq> MetadataTimeout \<and>
     (play_first env = None \<or> play_retry env = None) \<and>
     checkFrame (frame_dims env) 0 \<noteq> None \<and> captureStream_error env = None"
proof
  assume "\<exists>out p' b'. startProcessing env inp options (p, b) = Some (Inr out, p', b')"
  then obtain out p' b' where "startProcessing env inp options (p, b) = Some (Inr out, p', b')"
    by blast
  from startProcessing_resolves_only_if [OF this]
  show "getVideoTracks b inp \<noteq> [] \<and> metadata env \<noteq> MetadataTimeout \<and>
     (play_first env = None \<or> play_retry env = None) \<and>
     checkFrame (frame_dims env) 0 \<noteq> None \<and> captureStream_error env = None"
    by (intro conjI)
next
  assume c: "getVideoTracks b inp \<noteq> [] \<and> metadata env \<noteq> MetadataTimeout \<and>
     (play_first env = None \<or> play_retry env = None) \<and>
     checkFrame (frame_dims env) 0 \<noteq> None \<and> captureStream_error env = None"
  then obtain k where k: "checkFrame (frame_dims env) 0 = Some k" by auto
  from c startProcessing_reaches_compose [OF _ _ _ k, of b inp options p]
  obtain p2 fm fps where "startProcessing env inp options (p, b) =
     Some (composeOutput env inp fm fps (p2, b))" by auto
  moreover from c composeOutput_total [of env inp fm fps "(p2, b)"]
  obtain out p' b' where "composeOutput env inp fm fps (p2, b) = (Inr out, p', b')" by auto
  ultimately show "\<exists>out p' b'. startProcessing env inp options (p, b) = Some (Inr out, p', b')"
    by auto
qed

text \<open>
  C3, as amended. For an input stream that lists each track once, \<open>startProcessing\<close>
  resolves exactly when the input has a video track, the metadata arrives, \<open>play()\<close> or
  its retry succeeds, a first frame shows up and \<open>captureStream\<close> does not throw: whether
  \<open>clone()\<close> or \<open>addTrack\<close> throws for an audio track plays no part in it. When it
  resolves, the output stream holds the canvas video track first and then, in order, one
  audio track for every audio track of the input for which neither \<open>clone()\<close> nor
  \<open>addTrack\<close> throws: its clone, or the track itself when it has no \<open>clone\<close> method.
  Every other audio track of the input is skipped, and the console receives one warning
  \<open>Failed to add audio track to processed stream:\<close> for each of them and nothing else.
  The tracks that existed before the call are left as they were.
\<close>

theorem audio_forwarded_unless_clone_or_add_throws:
  assumes "distinct inputStream"
  shows "((\<exists>out p' b'.
             startProcessing env inputStream options (p, b) = Some (Inr out, p', b')) \<longleftrightarrow>
          getVideoTracks b inputStream \<noteq> [] \<and> metadata env \<noteq> MetadataTimeout \<and>
          (play_first env = None \<or> play_retry env = None) \<and>
          checkFrame (frame_dims env) 0 \<noteq> None \<and> captureStream_error env = None) \<and>
     (\<forall>out p' b'.
        startProcessing env inputStream options (p, b) = Some (Inr out, p', b') \<longrightarrow>
        out \<noteq> [] \<and> getVideoTracks b' out = [hd out] \<and> hd out = length (tracks b) \<and>
        getAudioTracks b' out = tl out \<and>
        list_all2 (forwarded_as b')
          (filter (forwardable env b) (getAudioTracks b inputStream)) (tl out) \<and>
        console b' = console b @
          replicate
            (length (filter (\<lambda>t. \<not> forwardable env b t) (getAudioTracks b inputStream)))
            skip_warning \<and>
        take (length (tracks b)) (tracks b') = tracks b)"
proof -
  let ?fps = "safeFps (case opt_fps options of None \<Rightarrow> 30 | Some v \<Rightarrow> v)"
  let ?b1 = "b\<lparr>tracks := tracks b @ [canvasTrack ?fps]\<rparr>"
  let ?as = "getAudioTracks b inputStream"
  let ?n = "length (tracks b)"
  let ?fw1 = "\<lambda>t. clone_method (tracks ?b1 ! t) \<noteq> CloneThrows \<and> \<not> addTrack_throws env t"
  have succeeds:
    "(\<exists>out p' b'. startProcessing env inputStream options (p, b) = Some (Inr out, p', b')) \<longleftrightarrow>
     getVideoTracks b inputStream \<noteq> [] \<and> metadata env \<noteq> MetadataTimeout \<and>
     (play_first env = None \<or> play_retry env = None) \<and>
     checkFrame (frame_dims env) 0 \<noteq> None \<and> captureStream_error env = None"
    by (rule startProcessing_resolves_iff)
  have forwards:
    "out \<noteq> [] \<and> getVideoTracks b' out = [hd out] \<and> hd out = length (tracks b) \<and>
     getAudioTracks b' out = tl out \<and>
     list_all2 (forwarded_as b') (filter (forwardable env b) ?as) (tl out) \<and>
     console b' = console b @
       replicate (length (filter (\<lambda>t. \<not> forwardable env b t) ?as)) skip_warning \<and>
     take (length (tracks b)) (tracks b') = tracks b"
    if run: "startProcessing env inputStream options (p, b) = Some (Inr out, p', b')"
    for out p' b'
  proof -
    from startProcessing_resolves [OF run] composeOutput_resolves
    obtain b2 where loop: "addAudioTracks (addTrack_throws env) ?as ([?n], ?b1) = (out, b2)"
      and b': "tracks b' = tracks b2" and c': "console b' = console b2"
      unfolding getAudioTracks_after_capture by blast
    have as_lt: "\<forall>t\<in>set ?as. t < ?n"
      and as_audio: "\<forall>t\<in>set ?as. kind (tracks b ! t) = AudioKind"
      by (auto simp: getAudioTracks_def)
    have "\<exists>ys xs. out = [?n] @ ys \<and> tracks b2 = tracks ?b1 @ xs \<and>
      list_all2 (forwarded_as b2) (filter ?fw1 ?as) ys \<and>
      console b2 = console ?b1 @ map (\<lambda>t. skip_warning) (filter (\<lambda>t. \<not> ?fw1 t) ?as)"
    proof (rule addAudioTracks_forwards [OF loop])
      show "distinct ?as" using assms by (simp add: getAudioTracks_def)
      show "set ?as \<inter> set [?n] = {}" using as_lt by auto
      show "\<forall>t\<in>set ?as. t < ?n" by (rule as_lt)
      show "?n \<le> length (tracks ?b1)" by simp
      show "\<forall>r\<in>set [?n]. r < length (tracks ?b1)" by simp
    qed
    then obtain ys xs where out: "out = ?n # ys"
      and t2: "tracks b2 = tracks b @ canvasTrack ?fps # xs"
      and fw2: "list_all2 (forwarded_as b2) (filter ?fw1 ?as) ys"
      and c2: "console b2 = console b @ map (\<lambda>t. skip_warning) (filter (\<lambda>t. \<not> ?fw1 t) ?as)"
      by auto
    have same: "filter ?fw1 ?as = filter (forwardable env b) ?as"
      using as_lt by (intro filter_cong) (auto simp: forwardable_def nth_append)
    have same_skipped:
      "filter (\<lambda>t. \<not> ?fw1 t) ?as = filter (\<lambda>t. \<not> forwardable env b t) ?as"
      using as_lt by (intro filter_cong) (auto simp: forwardable_def nth_append)
    have tb: "tracks b' = tracks b @ canvasTrack ?fps # xs" using b' t2 by simp
    have "forwarded_as b' = forwarded_as b2"
      unfolding forwarded_as_def b' ..
    then have fw: "list_all2 (forwarded_as b') (filter (forwardable env b) ?as) ys"
      using fw2 same by simp
    have warned: "console b' = console b @
        replicate (length (filter (\<lambda>t. \<not> forwardable env b t) ?as)) skip_warning"
      unfolding c' c2 same_skipped by (simp add: map_replicate_const)
    have old: "tracks b' ! t = tracks b ! t" if "t < ?n" for t
      using that tb by (simp add: nth_append)
    have ys_audio: "r < length (tracks b') \<and> kind (tracks b' ! r) = AudioKind"
      if "r \<in> set ys" for r
    proof -
      from list_all2_right_witness [OF fw that]
      obtain t where t: "t \<in> set ?as" and f: "forwarded_as b' t r"
        by auto
      have "t < ?n" "kind (tracks b ! t) = AudioKind" using t as_lt as_audio by auto
      then have k: "kind (tracks b' ! t) = AudioKind" "t < length (tracks b')"
        using old tb by auto
      show ?thesis using f k
        by (cases "clone_method (tracks b' ! t)") (auto simp: forwarded_as_def)
    qed
    have canvas: "?n < length (tracks b')" "kind (tracks b' ! ?n) = VideoKind"
      using tb by (auto simp: canvasTrack_def)
    have "getVideoTracks b' out = [?n]"
      unfolding out getVideoTracks_def using canvas ys_audio by (auto simp: filter_empty_conv)
    moreover have "getAudioTracks b' out = ys"
      unfolding out getAudioTracks_def using canvas ys_audio by (auto simp: filter_id_conv)
    moreover have "take ?n (tracks b') = tracks b" using tb by simp
    ultimately show ?thesis using out fw warned by simp
  qed
  show ?thesis
    by (rule conjI [OF succeeds]) (intro allI impI, erule forwards)
qed

theorem audio_forwarded_unless_clone_or_add_throws_witness:
  "\<exists>p' b'. distinct [0, 1, 2, 3::nat] \<and>
     startProcessing picky_env [0, 1, 2, 3] (square_options 30)
        (new_VideoProcessor, mixed_browser) = Some (Inr [4, 5], p', b') \<and>
     getAudioTracks mixed_browser [0, 1, 2, 3] = [1, 2, 3] \<and>
     filter (forwardable picky_env mixed_browser) [1, 2, 3] = [2] \<and>
     filter (\<lambda>t. \<not> forwardable picky_env mixed_browser t) [1, 2, 3] = [1, 3] \<and>
     getVideoTracks b' [4, 5] = [4] \<and> getAudioTracks b' [4, 5] = [5] \<and>
     list_all2 (forwarded_as b') [2] [5] \<and>
     console b' = [skip_warning, skip_warning] \<and>
     take 4 (tracks b') = tracks mixed_browser"
proof -
  have "\<exists>p' b'. startProcessing picky_env [0, 1, 2, 3] (square_options 30)
      (new_VideoProcessor, mixed_browser) = Some (Inr [4, 5], p', b')"
    by (simp add: run_simps picky_env_def mixed_browser_def)
  then obtain p' b' where run: "startProcessing picky_env [0, 1, 2, 3] (square_options 30)
      (new_VideoProcessor, mixed_browser) = Some (Inr [4, 5], p', b')"
    by blast
  have d: "distinct [0, 1, 2, 3::nat]" by simp
  have a: "getAudioTracks mixed_browser [0, 1, 2, 3] = [1, 2, 3]"
    by (simp add: getAudioTracks_def mixed_browser_def)
  have f: "filter (forwardable picky_env mixed_browser) [1, 2, 3] = [2]"
    by (simp add: forwardable_def mixed_browser_def picky_env_def)
  have s: "filter (\<lambda>t. \<not> forwardable picky_env mixed_browser t) [1, 2, 3] = [1, 3]"
    by (simp add: forwardable_def mixed_browser_def picky_env_def)
  have n: "length (tracks mixed_browser) = 4" "console mixed_browser = []"
    by (simp_all add: mixed_browser_def)
  note t = audio_forwarded_unless_clone_or_add_throws
    [OF d, THEN conjunct2, rule_format, OF run, unfolded a f s n]
  have "getVideoTracks b' [4, 5] = [4] \<and> getAudioTracks b' [4, 5] = [5] \<and>
     list_all2 (forwarded_as b') [2] [5] \<and>
     console b' = [skip_warning, skip_warning] \<and>
     take 4 (tracks b') = tracks mixed_browser"
    using t by (simp add: numeral_2_eq_2)
  with run d a f s show ?thesis by blast
qed

text \<open>
  C3 as stated fails: the input has one audio track, its \<open>clone()\<close> throws, the call
  resolves all the same, and the output stream has no audio track.
\<close>

theorem audio_track_lost_when_clone_throws:
  "getAudioTracks faulty_clone_browser [0, 1] = [1] \<and>
   outputAudioTracks (startProcessing smooth_env [0, 1] (square_options 30)
      (new_VideoProcessor, faulty_clone_browser)) = Some []"
  by (simp add: run_simps outputAudioTracks_def faulty_clone_browser_def)

text \<open>
  C4. When the input stream has no video track, \<open>startProcessing\<close> rejects with the
  error \<open>No video tracks in input stream\<close> and leaves the processor and the browser
  exactly as they were: \<open>isProcessing\<close>, the output stream and the canvas size included.
\<close>

theorem no_video_tracks_rejects_and_leaves_state:
  "getVideoTracks b inputStream = [] \<Longrightarrow>
   startProcessing env inputStream options (p, b) =
     Some (Inl (Error ''No video tracks in input stream''), p, b)"
  by (simp add: startProcessing_def Let_def)

theorem no_video_tracks_rejects_and_leaves_state_witness:
  "getVideoTracks microphone_browser [0] = [] \<and>
   startProcessing smooth_env [0] (square_options 30) (new_VideoProcessor, microphone_browser) =
     Some (Inl (Error ''No video tracks in input stream''), new_VideoProcessor,
           microphone_browser) \<and>
   \<not> isProcessing new_VideoProcessor \<and> outputStream new_VideoProcessor = None \<and>
   width (canvas new_VideoProcessor) = 300 \<and> height (canvas new_VideoProcessor) = 150"
proof -
  have none: "getVideoTracks microphone_browser [0] = []"
    by (simp add: getVideoTracks_def microphone_browser_def)
  from no_video_tracks_rejects_and_leaves_state [OF none] none show ?thesis
    by (simp add: new_VideoProcessor_def)
qed

text \<open>
  C5, as amended. When \<open>startProcessing\<close> resolves, the frame rate handed to
  \<open>captureStream\<close> is the requested fps (30 when none is given or when it is 0) clamped
  to the range from 1 to 60; it is the requested fps itself when that lies in the range.
\<close>

theorem capture_rate_is_clamped_request:
  assumes "startProcessing env inputStream options (p, b) = Some (Inr out, p', b')"
    and "requested = (case opt_fps options of None \<Rightarrow> 30 | Some v \<Rightarrow> v)"
  shows "\<exists>rate. frameRequestRate (tracks b' ! hd out) = Some rate \<and>
     rate = min (max 1 (if requested = 0 then 30 else requested)) 60 \<and>
     1 \<le> rate \<and> rate \<le> 60 \<and>
     (1 \<le> requested \<and> requested \<le> 60 \<longrightarrow> rate = requested)"
proof -
  from resolved_structure [OF assms(1)] obtain ys xs where
    "out = length (tracks b) # ys"
    "tracks b' = tracks b @ canvasTrack (safeFps requested) # xs"
    unfolding assms(2) by blast
  then have "frameRequestRate (tracks b' ! hd out) = Some (safeFps requested)"
    by (simp add: canvasTrack_def)
  then show ?thesis by (auto simp: safeFps_def)
qed

theorem capture_rate_is_clamped_request_witness:
  "\<exists>p' b'. startProcessing smooth_env [0, 1] (square_options 24)
        (new_VideoProcessor, camera_browser) = Some (Inr [2, 3], p', b') \<and>
     (24::real) = (case opt_fps (square_options 24) of None \<Rightarrow> 30 | Some v \<Rightarrow> v) \<and>
     frameRequestRate (tracks b' ! hd [2, 3]) = Some 24"
proof -
  have "\<exists>p' b'. startProcessing smooth_env [0, 1] (square_options 24)
      (new_VideoProcessor, camera_browser) = Some (Inr [2, 3], p', b')"
    by (simp add: run_simps camera_browser_def)
  then obtain p' b' where run: "startProcessing smooth_env [0, 1] (square_options 24)
      (new_VideoProcessor, camera_browser) = Some (Inr [2, 3], p', b')"
    by blast
  have req: "(24::real) = (case opt_fps (square_options 24) of None \<Rightarrow> 30 | Some v \<Rightarrow> v)"
    by (simp add: square_options_def)
  from capture_rate_is_clamped_request [OF run req]
  have "frameRequestRate (tracks b' ! hd [2, 3]) = Some 24" by simp
  with run req show ?thesis by blast
qed

text \<open>
  C5 as stated fails: a caller that asks for 120 frames per second gets a capture at 60.
\<close>

theorem capture_rate_differs_from_request:
  "opt_fps (square_options 120) = Some 120 \<and>
   capturedFrameRate (startProcessing smooth_env [0, 1] (square_options 120)
      (new_VideoProcessor, camera_browser)) = Some 60 \<and>
   capturedFrameRate (startProcessing smooth_env [0, 1] (square_options 120)
      (new_VideoProcessor, camera_browser)) \<noteq> opt_fps (square_options 120)"
  by (simp add: run_simps capturedFrameRate_def camera_browser_def)

subsection \<open>Stopping\<close>

lemma stopTrack_length: "length (tracks (stopTrack r b)) = length (tracks b)"
  by (simp add: stopTrack_def)

lemma stopTrack_keeps_ended:
  "r < length (tracks b) \<Longrightarrow> ended (tracks b ! r) \<Longrightarrow> ended (tracks (stopTrack q b) ! r)"
  by (cases "q = r") (simp_all add: stopTrack_def)

lemma fold_stopTrack_keeps_ended:
  "r < length (tracks b) \<Longrightarrow> ended (tracks b ! r) \<Longrightarrow>
   ended (tracks (fold stopTrack out b) ! r)"
  by (induction out arbitrary: b) (simp_all add: stopTrack_keeps_ended stopTrack_length)

lemma fold_stopTrack_ends:
  "r \<in> set out \<Longrightarrow> r < length (tracks b) \<Longrightarrow> ended (tracks (fold stopTrack out b) ! r)"
proof (induction out arbitrary: b)
  case Nil
  then show ?case by simp
next
  case (Cons q out)
  show ?case
  proof (cases "q = r")
    case True
    have "ended (tracks (stopTrack r b) ! r)" using Cons.prems(2) by (simp add: stopTrack_def)
    then show ?thesis using True Cons.prems(2)
      by (simp add: fold_stopTrack_keeps_ended stopTrack_length)
  next
    case False
    then show ?thesis using Cons by (simp add: stopTrack_length)
  qed
qed

lemma fold_stopTrack_tracks:
  "tracks (fold stopTrack out b) =
     fold (\<lambda>r ts. ts[r := (ts ! r)\<lparr>ended := True\<rparr>]) out (tracks b)"
  by (induction out arbitrary: b) (simp_all add: stopTrack_def)

lemma stop_processor:
  "\<not> isProcessing (fst (stop s))" "inputVideo (fst (stop s)) = None"
  "outputStream (fst (stop s)) = None" "canvas (fst (stop s)) = canvas (fst s)"
  by (cases s; simp add: stop_def Let_def split: option.splits prod.splits)+

lemma stop_tracks:
  "tracks (snd (stop s)) =
     tracks (fold stopTrack (case outputStream (fst s) of None \<Rightarrow> [] | Some out \<Rightarrow> out)
       (snd s))"
  by (cases s)
    (auto simp: stop_def Let_def fold_stopTrack_tracks cancelAnimationFrame_def
      split: option.splits prod.splits)

lemma processFrame_idle: "\<not> isProcessing (fst s) \<Longrightarrow> processFrame fitMode s = s"
  by (cases s) (simp add: processFrame_def)

lemma fold_processFrame_idle:
  "\<not> isProcessing (fst s) \<Longrightarrow> fold processFrame fitModes s = s"
  by (induction fitModes) (simp_all add: processFrame_idle)

text \<open>
  C6. After \<open>stop\<close>, \<open>isProcessing\<close> is false and \<open>inputVideo\<close> is null; every
  later call of \<open>processFrame\<close>, and every sequence of such calls, returns at its first
  line and leaves the state as \<open>stop\<close> left it, so the canvas receives no further drawing
  call; and every track that the output stream held before \<open>stop\<close> has ended.
\<close>

theorem stop_ends_output_tracks_and_halts_drawing:
  "\<not> isProcessing (fst (stop s)) \<and> inputVideo (fst (stop s)) = None \<and>
   processFrame fitMode (stop s) = stop s \<and>
   fold processFrame fitModes (stop s) = stop s \<and>
   ops (canvas (fst (fold processFrame fitModes (stop s)))) = ops (canvas (fst s)) \<and>
   (\<forall>out. outputStream (fst s) = Some out \<longrightarrow>
      (\<forall>r\<in>set out. r < length (tracks (snd s)) \<longrightarrow> ended (tracks (snd (stop s)) ! r)))"
  by (simp add: stop_processor processFrame_idle fold_processFrame_idle stop_tracks
      fold_stopTrack_ends)

theorem stop_ends_output_tracks_and_halts_drawing_witness:
  "isProcessing (fst running_state) \<and> outputStream (fst running_state) = Some [2, 3] \<and>
   \<not> ended (tracks (snd running_state) ! 2) \<and> \<not> ended (tracks (snd running_state) ! 3) \<and>
   \<not> isProcessing (fst (stop running_state)) \<and> inputVideo (fst (stop running_state)) = None \<and>
   processFrame ''cover'' (stop running_state) = stop running_state \<and>
   fold processFrame [''cover'', ''contain''] (stop running_state) = stop running_state \<and>
   ended (tracks (snd (stop running_state)) ! 2) \<and>
   ended (tracks (snd (stop running_state)) ! 3)"
  using stop_ends_output_tracks_and_halts_drawing
    [of running_state "''cover''" "[''cover'', ''contain'']"]
  by (simp add: running_state_def stop_def processFrame_def cancelAnimationFrame_def
      stopTrack_def Let_def)

subsection \<open>Gallery storage\<close>

lemma find_after_delete:
  "k \<noteq> key \<Longrightarrow>
   find (\<lambda>r. item_id r = k) (filter (\<lambda>r. item_id r \<noteq> key) items) =
   find (\<lambda>r. item_id r = k) items"
  by (induction items) auto

lemma deleteGalleryItem_resolves:
  assumes "deleteGalleryItem env key st = (Inr (), st')"
  shows "stored st' = filter (\<lambda>r. item_id r \<noteq> key) (stored st)"
  using assms
  by (auto simp: deleteGalleryItem_def initDB_def stored_def log_error_def
      split: option.splits)

text \<open>
  C7. When \<open>deleteGalleryItem key\<close> resolves, every other key still leads to the
  record it led to before, whole and unchanged; nothing is added; and every record that
  is gone had the key \<open>key\<close>.
\<close>

theorem delete_leaves_other_items:
  assumes "deleteGalleryItem env key st = (Inr (), st')"
  shows "(\<forall>k. k \<noteq> key \<longrightarrow> lookup_item st' k = lookup_item st k) \<and>
    set (stored st') \<subseteq> set (stored st) \<and>
    (\<forall>r \<in> set (stored st) - set (stored st'). item_id r = key)"
  unfolding lookup_item_def deleteGalleryItem_resolves [OF assms]
  by (auto simp: find_after_delete)

theorem delete_leaves_other_items_witness:
  "deleteGalleryItem idb_ok ''b'' three_photos =
     (Inr (), \<lparr>db = Some [photo ''a'' 1700000000200, photo ''c'' 1700000000300],
               idb_console = []\<rparr>) \<and>
   lookup_item \<lparr>db = Some [photo ''a'' 1700000000200, photo ''c'' 1700000000300],
                idb_console = []\<rparr> ''a'' = lookup_item three_photos ''a'' \<and>
   lookup_item three_photos ''a'' = Some (photo ''a'' 1700000000200) \<and>
   lookup_item \<lparr>db = Some [photo ''a'' 1700000000200, photo ''c'' 1700000000300],
                idb_console = []\<rparr> ''c'' = lookup_item three_photos ''c'' \<and>
   lookup_item three_photos ''c'' = Some (photo ''c'' 1700000000300) \<and>
   lookup_item three_photos ''b'' = Some (photo ''b'' 1700000000100)"
proof -
  let ?after = "\<lparr>db = Some [photo ''a'' 1700000000200, photo ''c'' 1700000000300],
      idb_console = []\<rparr>"
  have run: "deleteGalleryItem idb_ok ''b'' three_photos = (Inr (), ?after)"
    by (simp add: deleteGalleryItem_def initDB_def stored_def idb_ok_def three_photos_def
        photo_def)
  note others = delete_leaves_other_items [OF run, THEN conjunct1, rule_format]
  have a: "lookup_item ?after ''a'' = lookup_item three_photos ''a''"
    by (rule others) simp
  have c: "lookup_item ?after ''c'' = lookup_item three_photos ''c''"
    by (rule others) simp
  have before: "lookup_item three_photos ''a'' = Some (photo ''a'' 1700000000200)"
    "lookup_item three_photos ''c'' = Some (photo ''c'' 1700000000300)"
    "lookup_item three_photos ''b'' = Some (photo ''b'' 1700000000100)"
    by (simp_all add: lookup_item_def stored_def three_photos_def photo_def)
  show ?thesis using run a c before by (intro conjI)
qed

lemma js_insert_set: "set (js_insert cmp x xs) = insert x (set xs)"
  by (induction xs) auto

lemma js_insert_mset: "mset (js_insert cmp x xs) = add_mset x (mset xs)"
  by (induction xs) auto

lemma js_sort_mset: "mset (js_sort cmp xs) = mset xs"
  by (induction xs) (auto simp: js_sort_def js_insert_mset)

lemma js_insert_newest_first:
  "newest_first xs \<Longrightarrow> newest_first (js_insert (\<lambda>a b. timestamp b - timestamp a) x xs)"
  unfolding newest_first_def by (induction xs) (auto simp: js_insert_set)

lemma js_sort_newest_first: "newest_first (js_sort (\<lambda>a b. timestamp b - timestamp a) xs)"
proof (induction xs)
  case Nil
  show ?case by (simp add: js_sort_def newest_first_def)
next
  case (Cons x xs)
  then show ?case using js_insert_newest_first by (simp add: js_sort_def)
qed

lemma loadGalleryItems_cases:
  assumes "loadGalleryItems env st = (Inr items, st')"
  shows "items = [] \<or>
    (open_error env = None \<and> transaction_error env = None \<and>
     items = js_sort (\<lambda>a b. timestamp b - timestamp a) (index_getAll (stored st)))"
  using assms
  by (auto simp: loadGalleryItems_def initDB_def Let_def stored_def split: option.splits)

lemma loadGalleryItems_reads:
  assumes "loadGalleryItems env st = (Inr items, st')"
    and "open_error env = None" "transaction_error env = None"
  shows "items = js_sort (\<lambda>a b. timestamp b - timestamp a) (index_getAll (stored st))"
  using assms
  by (auto simp: loadGalleryItems_def initDB_def Let_def stored_def split: option.splits)

text \<open>
  C8. The list that \<open>loadGalleryItems\<close> resolves with is ordered newest first: each
  item's timestamp is at least the timestamp of the item after it. When the database
  opened and the transaction was created, the list holds exactly the stored records.
\<close>

theorem load_returns_newest_first:
  assumes "loadGalleryItems env st = (Inr items, st')"
  shows "(\<forall>i. Suc i < length items \<longrightarrow> timestamp (items ! Suc i) \<le> timestamp (items ! i)) \<and>
    (open_error env = None \<and> transaction_error env = None \<longrightarrow> mset items = mset (stored st))"
proof -
  have "newest_first items"
    using loadGalleryItems_cases [OF assms] js_sort_newest_first
    by (auto simp: newest_first_def)
  then have "\<forall>i. Suc i < length items \<longrightarrow> timestamp (items ! Suc i) \<le> timestamp (items ! i)"
    by (simp add: newest_first_def sorted_wrt_iff_nth_less)
  moreover have "mset items = mset (stored st)"
    if "open_error env = None" "transaction_error env = None"
    using loadGalleryItems_reads [OF assms that] by (simp add: js_sort_mset index_getAll_def)
  ultimately show ?thesis by blast
qed

theorem load_returns_newest_first_witness:
  "loadGalleryItems idb_ok three_photos =
     (Inr [photo ''c'' 1700000000300, photo ''a'' 1700000000200, photo ''b'' 1700000000100],
      three_photos) \<and>
   timestamp (photo ''a'' 1700000000200) \<le> timestamp (photo ''c'' 1700000000300) \<and>
   timestamp (photo ''b'' 1700000000100) \<le> timestamp (photo ''a'' 1700000000200) \<and>
   mset [photo ''c'' 1700000000300, photo ''a'' 1700000000200, photo ''b'' 1700000000100] =
     mset (stored three_photos)"
proof -
  let ?items = "[photo ''c'' 1700000000300, photo ''a'' 1700000000200,
      photo ''b'' 1700000000100]"
  have run: "loadGalleryItems idb_ok three_photos = (Inr ?items, three_photos)"
    by (simp add: loadGalleryItems_def initDB_def stored_def idb_ok_def three_photos_def
        photo_def js_sort_def index_getAll_def)
  note sorted = load_returns_newest_first [OF run, THEN conjunct1, rule_format]
  note same = load_returns_newest_first [OF run, THEN conjunct2, rule_format]
  have first: "timestamp (photo ''a'' 1700000000200) \<le> timestamp (photo ''c'' 1700000000300)"
    using sorted [of 0] by simp
  have second: "timestamp (photo ''b'' 1700000000100) \<le> timestamp (photo ''a'' 1700000000200)"
    using sorted [of 1] by simp
  have all: "mset ?items = mset (stored three_photos)"
    by (rule same) (simp add: idb_ok_def)
  show ?thesis using run first second all by (intro conjI)
qed

text \<open>
  Which failures each function passes on. \<open>loadGalleryItems\<close> answers a failed open and
  a failed transaction with the empty list; the other three reject with the error of
  whichever step fails.
\<close>

lemma load_swallows_open_and_transaction_errors:
  "open_error env = Some e \<or> transaction_error env = Some e \<Longrightarrow>
   fst (loadGalleryItems env st) = Inr []"
  by (auto simp: loadGalleryItems_def initDB_def Let_def split: option.splits)

lemma load_passes_request_error:
  "open_error env = None \<Longrightarrow> transaction_error env = None \<Longrightarrow> request_error env = Some e \<Longrightarrow>
   fst (loadGalleryItems env st) = Inl e"
  by (simp add: loadGalleryItems_def initDB_def Let_def)

lemma save_delete_clear_rethrow:
  assumes "open_error env \<noteq> None \<or> transaction_error env \<noteq> None \<or> request_error env \<noteq> None"
  shows "\<exists>e. fst (saveGalleryItem env new_id now blob_data type_str meta st) = Inl e"
    and "\<exists>e. fst (deleteGalleryItem env key st) = Inl e"
    and "\<exists>e. fst (clearGallery env st) = Inl e"
  using assms
  by (auto simp: saveGalleryItem_def deleteGalleryItem_def clearGallery_def initDB_def Let_def
      split: option.splits)

text \<open>
  C9 at the failing input: the database opens, the transaction is created, and the
  \<open>getAll\<close> request fails. \<open>loadGalleryItems\<close> rejects with the error of the request;
  it does not resolve with the empty list, and nothing is logged.
\<close>

theorem load_rejects_when_request_fails:
  "loadGalleryItems idb_request_fails three_photos =
     (Inl (DOMException ''UnknownError''), three_photos) \<and>
   fst (loadGalleryItems idb_open_fails three_photos) = Inr []"
  by (simp add: loadGalleryItems_def initDB_def stored_def idb_request_fails_def
      idb_open_fails_def three_photos_def Let_def)

subsection \<open>Recorder MIME type\<close>

lemma firstSupported_cases:
  "firstSupported isTypeSupported ts = [] \<or> firstSupported isTypeSupported ts \<in> set ts"
  by (induction ts) auto

text \<open>
  C10. Whatever the recorder supports, \<open>pickMimeType\<close> returns the empty string or a
  type of the stream's kind: one that starts with \<open>video/\<close> when the stream has a video
  track, one that starts with \<open>audio/\<close> when it has none.
\<close>

theorem pickMimeType_kind_matches_stream:
  "pickMimeType isTypeSupported b stream = '''' \<or>
   startsWith (pickMimeType isTypeSupported b stream)
     (if getVideoTracks b stream \<noteq> [] then ''video/'' else ''audio/'')"
proof (cases "getVideoTracks b stream = []")
  case True
  let ?a = "[''audio/webm;codecs=opus'', ''audio/webm'', ''audio/ogg;codecs=opus'']"
  have "pickMimeType isTypeSupported b stream = firstSupported isTypeSupported ?a"
    using True by (simp add: pickMimeType_def)
  moreover have "\<forall>t \<in> set ?a. startsWith t ''audio/''"
    by (simp add: startsWith_def)
  ultimately show ?thesis
    using True firstSupported_cases [of isTypeSupported ?a] by auto
next
  case False
  let ?va = "[''video/webm;codecs=vp8,opus'',
              ''video/webm;codecs=vp9,opus'',
              ''video/webm;codecs=vp8'',
              ''video/webm;codecs=vp9'',
              ''video/webm'',
              ''video/mp4;codecs=avc1.42E01E,mp4a.40.2'',
              ''video/mp4'']"
  let ?v = "[''video/webm;codecs=vp8'',
             ''video/webm;codecs=vp9'',
             ''video/webm'',
             ''video/mp4;codecs=avc1.42E01E'',
             ''video/mp4'']"
  have eq: "pickMimeType isTypeSupported b stream =
      firstSupported isTypeSupported (if getAudioTracks b stream \<noteq> [] then ?va else ?v)"
    using False by (simp add: pickMimeType_def)
  have va: "\<forall>t \<in> set ?va. startsWith t ''video/''" by (simp add: startsWith_def)
  have v: "\<forall>t \<in> set ?v. startsWith t ''video/''" by (simp add: startsWith_def)
  show ?thesis
  proof (cases "getAudioTracks b stream = []")
    case True
    then show ?thesis
      using eq v False firstSupported_cases [of isTypeSupported ?v] by auto
  next
    case no_audio: False
    then show ?thesis
      using eq va False firstSupported_cases [of isTypeSupported ?va] by auto
  qed
qed

theorem pickMimeType_kind_matches_stream_witness:
  "pickMimeType (\<lambda>t. t = ''video/webm'' \<or> t = ''audio/webm'') camera_browser [0, 1] =
     ''video/webm'' \<and>
   getVideoTracks camera_browser [0, 1] = [0] \<and> startsWith ''video/webm'' ''video/'' \<and>
   pickMimeType (\<lambda>t. t = ''video/webm'' \<or> t = ''audio/webm'') microphone_browser [0] =
     ''audio/webm'' \<and>
   getVideoTracks microphone_browser [0] = [] \<and> startsWith ''audio/webm'' ''audio/'' \<and>
   pickMimeType (\<lambda>t. False) camera_browser [0, 1] = ''''"
  using pickMimeType_kind_matches_stream
    [of "\<lambda>t. t = ''video/webm'' \<or> t = ''audio/webm''" camera_browser "[0, 1]"]
  by (simp add: pickMimeType_def getVideoTracks_def getAudioTracks_def camera_browser_def
      microphone_browser_def startsWith_def)

end
